theory Spec2Isabelle
  imports Main "HOL-Library.Word"
begin

unbundle bit_operations_syntax

section \<open>Bit-bashed I2C master (bbi2c/i2c_master.c)\<close>

subsection \<open>Types and constants of the headers\<close>

text \<open>
  The file includes \<^verbatim>\<open>i2c_master.h\<close>, \<^verbatim>\<open>i2c_private.h\<close> and \<^verbatim>\<open>delay.h\<close>.
  The constants they define are used by name only, so they are parameters of the
  model: the result codes and the action flags of \<^verbatim>\<open>i2c_master.h\<close> (C enums,
  hence \<open>int\<close>), the capacity of the device table (\<^verbatim>\<open>I2C_DEVICES_NUM\<close>, 4 unless
  the configuration overrides it) and the number of polls of the bounded clock wait.
  The source names \<^verbatim>\<open>I2C_OK\<close> and \<^verbatim>\<open>I2C_ERROR_CONFLICT\<close>; the code that the
  clock wait returns on a timeout is named here \<open>I2C_ERROR_TIMEOUT\<close>.
\<close>

record i2c_consts =
  I2C_OK :: int
  I2C_ERROR_CONFLICT :: int
  I2C_ERROR_TIMEOUT :: int
  I2C_START :: int
  I2C_STOP :: int
  I2C_READ :: int
  I2C_WRITE :: int
  I2C_DEVICES_NUM :: nat
  I2C_CLOCK_STRETCH_TIMEOUT :: nat

type_synonym pio = nat

record i2c_bus_cfg =
  scl :: pio
  sda :: pio

record i2c_slave_cfg =
  slave_id :: nat
  addr_bytes :: "8 word"

record i2c_dev =
  bus :: i2c_bus_cfg
  slave :: i2c_slave_cfg

subsection \<open>State\<close>

text \<open>
  The state holds what the master drives on each line (\<open>True\<close>: released, the
  pull-up makes it high; \<open>False\<close>: driven low), the history of the calls into the line
  driver and the delay primitive (newest first), the two file-scope variables of the device
  table, and a record of the invocations of the bit-level operations and of the start
  and stop conditions (newest first), kept so that theorems can count them.
\<close>

datatype line_event = Pio_set pio bool | Pio_get pio | Delay nat

datatype call = Send_bit bool | Recv_bit | Send_start | Send_stop

record i2c_state =
  pio_out :: "pio \<Rightarrow> bool"
  trace :: "line_event list"
  calls :: "call list"
  i2c_devices_num :: "8 word"
  i2c_devices :: "nat \<rightharpoonup> i2c_dev"

text \<open>
  The other side of the bus is any function of the line and of everything the master has
  done on the lines so far: \<open>True\<close> where the peer leaves the line released.
\<close>

type_synonym peer = "pio \<Rightarrow> line_event list \<Rightarrow> bool"

definition note_call :: "call \<Rightarrow> i2c_state \<Rightarrow> i2c_state" where
  "note_call k s = s\<lparr>calls := k # calls s\<rparr>"

subsection \<open>Line driver interface and delay\<close>

text \<open>
  Modelled from the spec: the line driver interface of \<^verbatim>\<open>i2c_private.h\<close> and the
  delay of \<^verbatim>\<open>delay.h\<close> are not in the sources. Per the spec each line is set to a
  driven level (0) or released (1), the lines are open-drain (a line reads high only
  when nobody drives it low), and the clock wait polls SCL until it reads high or a
  bound is reached, reporting the timeout as an error of its own.
\<close>

definition pio_level :: "peer \<Rightarrow> i2c_state \<Rightarrow> pio \<Rightarrow> bool" where
  "pio_level p s pin = (pio_out s pin \<and> p pin (trace s))"

definition pio_set :: "pio \<Rightarrow> bool \<Rightarrow> i2c_state \<Rightarrow> i2c_state" where
  "pio_set pin v s = s\<lparr>pio_out := (pio_out s)(pin := v), trace := Pio_set pin v # trace s\<rparr>"

definition i2c_sda_set :: "i2c_dev \<Rightarrow> bool \<Rightarrow> i2c_state \<Rightarrow> i2c_state" where
  "i2c_sda_set dev v s = pio_set (sda (bus dev)) v s"

definition i2c_scl_set :: "i2c_dev \<Rightarrow> bool \<Rightarrow> i2c_state \<Rightarrow> i2c_state" where
  "i2c_scl_set dev v s = pio_set (scl (bus dev)) v s"

definition pio_get :: "peer \<Rightarrow> pio \<Rightarrow> i2c_state \<Rightarrow> bool \<times> i2c_state" where
  "pio_get p pin s = (pio_level p s pin, s\<lparr>trace := Pio_get pin # trace s\<rparr>)"

definition i2c_sda_get :: "peer \<Rightarrow> i2c_dev \<Rightarrow> i2c_state \<Rightarrow> bool \<times> i2c_state" where
  "i2c_sda_get p dev s = pio_get p (sda (bus dev)) s"

definition DELAY_US :: "nat \<Rightarrow> i2c_state \<Rightarrow> i2c_state" where
  "DELAY_US n s = s\<lparr>trace := Delay n # trace s\<rparr>"

fun scl_wait_poll ::
  "i2c_consts \<Rightarrow> peer \<Rightarrow> i2c_dev \<Rightarrow> nat \<Rightarrow> i2c_state \<Rightarrow> int \<times> i2c_state" where
  "scl_wait_poll c p dev 0 s = (I2C_ERROR_TIMEOUT c, s)"
| "scl_wait_poll c p dev (Suc n) s =
     (case pio_get p (scl (bus dev)) s of
        (level, s1) \<Rightarrow>
          if level then (I2C_OK c, s1) else scl_wait_poll c p dev n (DELAY_US 1 s1))"

definition i2c_scl_wait :: "i2c_consts \<Rightarrow> peer \<Rightarrow> i2c_dev \<Rightarrow> i2c_state \<Rightarrow> int \<times> i2c_state" where
  "i2c_scl_wait c p dev s = scl_wait_poll c p dev (I2C_CLOCK_STRETCH_TIMEOUT c) s"

subsection \<open>Bit transfers\<close>

text \<open>
  \<^verbatim>\<open>i2c_ret_t\<close> is an enum, so a result is an \<open>int\<close>; \<^verbatim>\<open>return bit\<close> converts the
  sampled \<^verbatim>\<open>bool\<close> to 0 or 1.
\<close>

definition i2c_master_recv_bit ::
  "i2c_consts \<Rightarrow> peer \<Rightarrow> i2c_dev \<Rightarrow> i2c_state \<Rightarrow> int \<times> i2c_state" where
  "i2c_master_recv_bit c p dev s =
     (let s1 = i2c_sda_set dev True (note_call Recv_bit s);
          s2 = DELAY_US 4 s1;
          s3 = i2c_scl_set dev True s2
      in case i2c_scl_wait c p dev s3 of
           (ret, s4) \<Rightarrow>
             if ret \<noteq> I2C_OK c then (ret, s4)
             else (case i2c_sda_get p dev s4 of
                     (b, s5) \<Rightarrow> (of_bool b, i2c_scl_set dev False (DELAY_US 4 s5))))"

definition i2c_master_send_bit ::
  "i2c_consts \<Rightarrow> peer \<Rightarrow> i2c_dev \<Rightarrow> bool \<Rightarrow> i2c_state \<Rightarrow> int \<times> i2c_state" where
  "i2c_master_send_bit c p dev b s =
     (let s1 = i2c_sda_set dev b (note_call (Send_bit b) s);
          s2 = i2c_scl_set dev True s1
      in case i2c_scl_wait c p dev s2 of
           (ret, s3) \<Rightarrow>
             if ret \<noteq> I2C_OK c then (ret, s3)
             else if b then
               (case i2c_sda_get p dev s3 of
                  (level, s4) \<Rightarrow>
                    if \<not> level then (0, s4)
                    else (1, i2c_scl_set dev False (DELAY_US 4 s4)))
             else (1, i2c_scl_set dev False (DELAY_US 4 s3)))"

definition i2c_master_recv_ack ::
  "i2c_consts \<Rightarrow> peer \<Rightarrow> i2c_dev \<Rightarrow> i2c_state \<Rightarrow> int \<times> i2c_state" where
  "i2c_master_recv_ack c p dev s = i2c_master_recv_bit c p dev s"

definition i2c_master_send_ack ::
  "i2c_consts \<Rightarrow> peer \<Rightarrow> i2c_dev \<Rightarrow> i2c_state \<Rightarrow> int \<times> i2c_state" where
  "i2c_master_send_ack c p dev s = i2c_master_send_bit c p dev False s"

definition i2c_master_send_nack ::
  "i2c_consts \<Rightarrow> peer \<Rightarrow> i2c_dev \<Rightarrow> i2c_state \<Rightarrow> int \<times> i2c_state" where
  "i2c_master_send_nack c p dev s = i2c_master_send_bit c p dev True s"

subsection \<open>Byte transfers\<close>

text \<open>
  Each loop runs a fixed eight times, so it is a recursion on the iterations left.
  \<open>Inl\<close> is the \<^verbatim>\<open>return ret\<close> inside the loop, \<open>Inr\<close> the loop running to its
  end. \<^verbatim>\<open>data\<close> and \<^verbatim>\<open>d\<close> are \<^verbatim>\<open>uint8_t\<close>: the shift drops the top bit, and
  \<^verbatim>\<open>(d << 1) | ret\<close> is cut to its low eight bits by the assignment.
\<close>

fun send_byte_loop ::
  "i2c_consts \<Rightarrow> peer \<Rightarrow> i2c_dev \<Rightarrow> nat \<Rightarrow> 8 word \<Rightarrow> i2c_state \<Rightarrow> (int \<times> i2c_state) + i2c_state" where
  "send_byte_loop c p dev 0 data s = Inr s"
| "send_byte_loop c p dev (Suc n) data s =
     (case i2c_master_send_bit c p dev (drop_bit 7 data AND 1 \<noteq> 0) s of
        (ret, s1) \<Rightarrow>
          if ret \<noteq> I2C_OK c then Inl (ret, s1)
          else send_byte_loop c p dev n (push_bit 1 data) s1)"

definition i2c_master_send_byte ::
  "i2c_consts \<Rightarrow> peer \<Rightarrow> i2c_dev \<Rightarrow> 8 word \<Rightarrow> i2c_state \<Rightarrow> int \<times> i2c_state" where
  "i2c_master_send_byte c p dev data s =
     (case send_byte_loop c p dev 8 data s of
        Inl (ret, s1) \<Rightarrow> (ret, s1)
      | Inr s1 \<Rightarrow> i2c_master_recv_ack c p dev s1)"

fun recv_byte_loop ::
  "i2c_consts \<Rightarrow> peer \<Rightarrow> i2c_dev \<Rightarrow> nat \<Rightarrow> 8 word \<Rightarrow> i2c_state \<Rightarrow>
     (int \<times> i2c_state) + (8 word \<times> i2c_state)" where
  "recv_byte_loop c p dev 0 d s = Inr (d, s)"
| "recv_byte_loop c p dev (Suc n) d s =
     (case i2c_master_recv_bit c p dev s of
        (ret, s1) \<Rightarrow>
          if ret \<noteq> I2C_OK c then Inl (ret, s1)
          else recv_byte_loop c p dev n (push_bit 1 d OR word_of_int ret) s1)"

text \<open>
  \<^verbatim>\<open>i2c_master_recv_byte\<close> takes the byte that \<^verbatim>\<open>*data\<close> holds at the call and
  returns, after the result, the byte it holds at the return.
\<close>

definition i2c_master_recv_byte ::
  "i2c_consts \<Rightarrow> peer \<Rightarrow> i2c_dev \<Rightarrow> 8 word \<Rightarrow> i2c_state \<Rightarrow> int \<times> 8 word \<times> i2c_state" where
  "i2c_master_recv_byte c p dev data s =
     (case recv_byte_loop c p dev 8 0 s of
        Inl (ret, s1) \<Rightarrow> (ret, data, s1)
      | Inr (d, s1) \<Rightarrow>
          (case i2c_master_send_ack c p dev s1 of (ret, s2) \<Rightarrow> (ret, d, s2)))"

subsection \<open>Start, stop and address\<close>

definition i2c_master_send_start ::
  "i2c_consts \<Rightarrow> peer \<Rightarrow> i2c_dev \<Rightarrow> i2c_state \<Rightarrow> int \<times> i2c_state" where
  "i2c_master_send_start c p dev s =
     (case i2c_sda_get p dev (note_call Send_start s) of
        (level, s1) \<Rightarrow>
          if \<not> level then (I2C_ERROR_CONFLICT c, s1)
          else (I2C_OK c, i2c_scl_set dev False (DELAY_US 4 (i2c_sda_set dev False s1))))"

definition i2c_master_send_stop ::
  "i2c_consts \<Rightarrow> peer \<Rightarrow> i2c_dev \<Rightarrow> i2c_state \<Rightarrow> int \<times> i2c_state" where
  "i2c_master_send_stop c p dev s =
     (let s1 = i2c_sda_set dev False (note_call Send_stop s);
          s2 = DELAY_US 4 s1;
          s3 = i2c_scl_set dev True s2
      in case i2c_scl_wait c p dev s3 of
           (ret, s4) \<Rightarrow> (I2C_OK c, i2c_sda_set dev True (DELAY_US 4 s4)))"

text \<open>
  The address byte is computed in \<^verbatim>\<open>int\<close> and cut to \<^verbatim>\<open>uint8_t\<close> by the call;
  \<^verbatim>\<open>read != 0\<close> is 0 or 1.
\<close>

definition i2c_master_send_addr ::
  "i2c_consts \<Rightarrow> peer \<Rightarrow> i2c_dev \<Rightarrow> bool \<Rightarrow> i2c_state \<Rightarrow> int \<times> i2c_state" where
  "i2c_master_send_addr c p dev read s =
     i2c_master_send_byte c p dev
       (word_of_int (push_bit 1 (int (slave_id (slave dev))) OR of_bool read)) s"

subsection \<open>Transactions\<close>

text \<open>
  \<^verbatim>\<open>buffer\<close> is a pointer: the model takes the bytes found from it on (\<open>buffer i\<close>
  is \<^verbatim>\<open>data[i]\<close>) and returns them as the transfer leaves them. \<^verbatim>\<open>size\<close> and
  the counter \<^verbatim>\<open>i\<close> are \<^verbatim>\<open>uint8_t\<close>; \<^verbatim>\<open>i\<close> stays below \<^verbatim>\<open>size\<close>, so it
  never wraps. In each part \<open>Inl\<close> is a \<^verbatim>\<open>return ret\<close> of a failed phase and
  \<open>Inr\<close> is falling through to the next phase (at the end, to \<^verbatim>\<open>return i\<close>).
\<close>

definition transfer_start ::
  "i2c_consts \<Rightarrow> peer \<Rightarrow> i2c_dev \<Rightarrow> int \<Rightarrow> i2c_state \<Rightarrow> (int \<times> i2c_state) + i2c_state" where
  "transfer_start c p dev action s =
     (if action AND I2C_START c \<noteq> 0 then
        (case i2c_master_send_start c p dev s of
           (ret, s1) \<Rightarrow>
             if ret \<noteq> I2C_OK c then Inl (ret, s1)
             else (case i2c_master_send_addr c p dev (action AND I2C_READ c \<noteq> 0) s1 of
                     (ret, s2) \<Rightarrow> if ret \<noteq> I2C_OK c then Inl (ret, s2) else Inr s2))
      else Inr s)"

function transfer_loop ::
  "i2c_consts \<Rightarrow> peer \<Rightarrow> i2c_dev \<Rightarrow> int \<Rightarrow> nat \<Rightarrow> nat \<Rightarrow> (nat \<Rightarrow> 8 word) \<Rightarrow> i2c_state \<Rightarrow>
     (int + nat) \<times> (nat \<Rightarrow> 8 word) \<times> i2c_state" where
  "transfer_loop c p dev action i n data s =
     (if i < n then
        (case (if action AND I2C_WRITE c \<noteq> 0
               then (case i2c_master_send_byte c p dev (data i) s of
                       (ret, s1) \<Rightarrow> (ret, data, s1))
               else (case i2c_master_recv_byte c p dev (data i) s of
                       (ret, d, s1) \<Rightarrow> (ret, data(i := d), s1))) of
           (ret, data1, s1) \<Rightarrow>
             if ret \<noteq> I2C_OK c then (Inl ret, data1, s1)
             else transfer_loop c p dev action (Suc i) n data1 s1)
      else (Inr i, data, s))"
  by pat_completeness auto
termination
  by (relation "measure (\<lambda>(c, p, dev, action, i, n, data, s). n - i)") auto

declare transfer_loop.simps [simp del]

definition transfer_stop ::
  "i2c_consts \<Rightarrow> peer \<Rightarrow> i2c_dev \<Rightarrow> int \<Rightarrow> i2c_state \<Rightarrow> (int \<times> i2c_state) + i2c_state" where
  "transfer_stop c p dev action s =
     (if action AND I2C_STOP c \<noteq> 0 then
        (case i2c_master_send_stop c p dev s of
           (ret, s1) \<Rightarrow> if ret \<noteq> I2C_OK c then Inl (ret, s1) else Inr s1)
      else Inr s)"

definition transfer_body ::
  "i2c_consts \<Rightarrow> peer \<Rightarrow> i2c_dev \<Rightarrow> (nat \<Rightarrow> 8 word) \<Rightarrow> 8 word \<Rightarrow> int \<Rightarrow> i2c_state \<Rightarrow>
     (int + nat) \<times> (nat \<Rightarrow> 8 word) \<times> i2c_state" where
  "transfer_body c p dev buffer sz action s =
     (case transfer_start c p dev action s of
        Inl (ret, s1) \<Rightarrow> (Inl ret, buffer, s1)
      | Inr s1 \<Rightarrow>
          (case transfer_loop c p dev action 0 (unat sz) buffer s1 of
             (Inl ret, data, s2) \<Rightarrow> (Inl ret, data, s2)
           | (Inr i, data, s2) \<Rightarrow>
               (case transfer_stop c p dev action s2 of
                  Inl (ret, s3) \<Rightarrow> (Inl ret, data, s3)
                | Inr s3 \<Rightarrow> (Inr i, data, s3))))"

definition i2c_master_transfer ::
  "i2c_consts \<Rightarrow> peer \<Rightarrow> i2c_dev \<Rightarrow> (nat \<Rightarrow> 8 word) \<Rightarrow> 8 word \<Rightarrow> int \<Rightarrow> i2c_state \<Rightarrow>
     int \<times> (nat \<Rightarrow> 8 word) \<times> i2c_state" where
  "i2c_master_transfer c p dev buffer sz action s =
     (case transfer_body c p dev buffer sz action s of
        (Inl ret, data, s1) \<Rightarrow> (ret, data, s1)
      | (Inr i, data, s1) \<Rightarrow> (int i, data, s1))"

text \<open>
  \<^verbatim>\<open>addr\<close> is passed by value and sent from its own storage: the model takes the bytes
  of that storage (\<open>addr i\<close> is the byte at \<^verbatim>\<open>(uint8_t *)&addr + i\<close>). The first
  transfer cannot change the caller's buffer, which the second one starts from.
\<close>

definition i2c_master_addr_read ::
  "i2c_consts \<Rightarrow> peer \<Rightarrow> i2c_dev \<Rightarrow> (nat \<Rightarrow> 8 word) \<Rightarrow> (nat \<Rightarrow> 8 word) \<Rightarrow> 8 word \<Rightarrow> i2c_state \<Rightarrow>
     int \<times> (nat \<Rightarrow> 8 word) \<times> i2c_state" where
  "i2c_master_addr_read c p dev addr buffer sz s =
     (case i2c_master_transfer c p dev addr (addr_bytes (slave dev))
             (I2C_START c OR I2C_WRITE c) s of
        (ret, addr1, s1) \<Rightarrow>
          if ret < 0 then (ret, buffer, s1)
          else i2c_master_transfer c p dev buffer sz (I2C_WRITE c OR I2C_STOP c) s1)"

definition i2c_master_addr_write ::
  "i2c_consts \<Rightarrow> peer \<Rightarrow> i2c_dev \<Rightarrow> (nat \<Rightarrow> 8 word) \<Rightarrow> (nat \<Rightarrow> 8 word) \<Rightarrow> 8 word \<Rightarrow> i2c_state \<Rightarrow>
     int \<times> (nat \<Rightarrow> 8 word) \<times> i2c_state" where
  "i2c_master_addr_write c p dev addr buffer sz s =
     (case i2c_master_transfer c p dev addr (addr_bytes (slave dev))
             (I2C_START c OR I2C_WRITE c) s of
        (ret, addr1, s1) \<Rightarrow>
          if ret < 0 then (ret, buffer, s1)
          else i2c_master_transfer c p dev buffer sz (I2C_WRITE c OR I2C_STOP c) s1)"

subsection \<open>Device table\<close>

text \<open>
  \<^verbatim>\<open>i2c_devices\<close> is the table and \<^verbatim>\<open>i2c_devices_num\<close> its \<^verbatim>\<open>uint8_t\<close> fill
  count. A handle is a pointer to a slot of the table: the model returns the index of the
  slot, and \<open>None\<close> for the null pointer.
\<close>

definition i2c_master_init ::
  "i2c_consts \<Rightarrow> i2c_bus_cfg \<Rightarrow> i2c_slave_cfg \<Rightarrow> i2c_state \<Rightarrow> nat option \<times> i2c_state" where
  "i2c_master_init c bus_cfg slave_cfg s =
     (if I2C_DEVICES_NUM c \<le> unat (i2c_devices_num s) then (None, s)
      else
        (let n = unat (i2c_devices_num s);
             dev = \<lparr>bus = bus_cfg, slave = slave_cfg\<rparr>;
             s1 = s\<lparr>i2c_devices_num := i2c_devices_num s + 1,
                    i2c_devices := (i2c_devices s)(n \<mapsto> dev)\<rparr>
         in (Some n, i2c_scl_set dev True (i2c_sda_set dev True s1))))"

subsection \<open>Vocabulary of the properties\<close>

text \<open>
  The invocations recorded in a state, oldest first, and the number of start and stop
  conditions among them.
\<close>

definition history :: "i2c_state \<Rightarrow> call list" where
  "history s = rev (calls s)"

definition start_conditions :: "i2c_state \<Rightarrow> nat" where
  "start_conditions s = count_list (calls s) Send_start"

definition stop_conditions :: "i2c_state \<Rightarrow> nat" where
  "stop_conditions s = count_list (calls s) Send_stop"

text \<open>Two states with the same number of start conditions and of stop conditions.\<close>

definition same_conditions :: "i2c_state \<Rightarrow> i2c_state \<Rightarrow> bool" where
  "same_conditions s s1 =
     (start_conditions s1 = start_conditions s \<and> stop_conditions s1 = stop_conditions s)"

text \<open>The binary representation of a byte, most significant bit first.\<close>

definition msb_first :: "8 word \<Rightarrow> bool list" where
  "msb_first d = map (bit d) [7, 6, 5, 4, 3, 2, 1, 0]"

text \<open>The bits handed to \<^verbatim>\<open>i2c_master_send_bit\<close> in a list of invocations.\<close>

fun bits_of :: "call list \<Rightarrow> bool list" where
  "bits_of [] = []"
| "bits_of (Send_bit b # ks) = b # bits_of ks"
| "bits_of (k # ks) = bits_of ks"

text \<open>
  The clock wait that a bit transfer runs into: the state in which
  \<^verbatim>\<open>i2c_master_send_bit\<close> and \<^verbatim>\<open>i2c_master_recv_bit\<close> call \<^verbatim>\<open>i2c_scl_wait\<close>, and
  what the wait returns there.
\<close>

definition send_bit_wait :: "i2c_consts \<Rightarrow> peer \<Rightarrow> i2c_dev \<Rightarrow> bool \<Rightarrow> i2c_state \<Rightarrow> int \<times> i2c_state" where
  "send_bit_wait c p dev b s =
     i2c_scl_wait c p dev (i2c_scl_set dev True (i2c_sda_set dev b (note_call (Send_bit b) s)))"

definition recv_bit_wait :: "i2c_consts \<Rightarrow> peer \<Rightarrow> i2c_dev \<Rightarrow> i2c_state \<Rightarrow> int \<times> i2c_state" where
  "recv_bit_wait c p dev s =
     i2c_scl_wait c p dev
       (i2c_scl_set dev True (DELAY_US 4 (i2c_sda_set dev True (note_call Recv_bit s))))"


text \<open>
  Bit receptions in a row, written without the loop of \<^verbatim>\<open>i2c_master_recv_byte\<close>:
  the state after \<open>k\<close> calls of \<^verbatim>\<open>i2c_master_recv_bit\<close>, each in the state the
  one before left; what the call after them returns; and the byte assembled from a list
  of results, first result in the top position.
\<close>

fun after_bits :: "i2c_consts \<Rightarrow> peer \<Rightarrow> i2c_dev \<Rightarrow> nat \<Rightarrow> i2c_state \<Rightarrow> i2c_state" where
  "after_bits c p dev 0 s = s"
| "after_bits c p dev (Suc k) s = snd (i2c_master_recv_bit c p dev (after_bits c p dev k s))"

definition bit_result :: "i2c_consts \<Rightarrow> peer \<Rightarrow> i2c_dev \<Rightarrow> nat \<Rightarrow> i2c_state \<Rightarrow> int" where
  "bit_result c p dev k s = fst (i2c_master_recv_bit c p dev (after_bits c p dev k s))"

definition assemble :: "int list \<Rightarrow> 8 word" where
  "assemble rs = foldl (\<lambda>d r. push_bit 1 d OR word_of_int r) 0 rs"

text \<open>
  A peer that lets the master send: it never holds the clock low, and it leaves the data
  line released whenever the master has put a 1 on it and raised the clock. What it does
  when the master listens is its own business.
\<close>

definition cooperative :: "peer \<Rightarrow> i2c_dev \<Rightarrow> bool" where
  "cooperative p dev =
     ((\<forall>h. p (scl (bus dev)) h) \<and>
      (\<forall>h. p (sda (bus dev))
             (Pio_get (scl (bus dev)) # Pio_set (scl (bus dev)) True #
              Pio_set (sda (bus dev)) True # h)))"

subsection \<open>Simulated peers and example values\<close>

text \<open>
  Peers for the closed examples: a bus with nobody else on it, a peer that holds the
  clock of a device low for ever, a peer that holds its data line low for ever, a peer
  that pulls the data line low whenever the master listens (it has released the data
  line, waited and raised the clock, as \<^verbatim>\<open>i2c_master_recv_bit\<close> does: the peer
  acknowledges, and it sends zeros), and a peer that puts a given list of bits on the
  data line, one for each time the master samples it, and releases the line afterwards.
\<close>

definition idle_bus :: peer where
  "idle_bus pin h = True"

definition clock_held :: "i2c_dev \<Rightarrow> peer" where
  "clock_held dev pin h = (pin \<noteq> scl (bus dev))"

definition data_held :: "i2c_dev \<Rightarrow> peer" where
  "data_held dev pin h = (pin \<noteq> sda (bus dev))"

fun listening :: "i2c_dev \<Rightarrow> line_event list \<Rightarrow> bool" where
  "listening dev (Pio_get a # Pio_set b True # Delay n # Pio_set e True # h) =
     (a = scl (bus dev) \<and> b = scl (bus dev) \<and> e = sda (bus dev))"
| "listening dev h = False"

definition ack_peer :: "i2c_dev \<Rightarrow> peer" where
  "ack_peer dev pin h = (if pin = sda (bus dev) then \<not> listening dev h else True)"

definition feed_peer :: "i2c_dev \<Rightarrow> bool list \<Rightarrow> peer" where
  "feed_peer dev bits pin h =
     (if pin = sda (bus dev) \<and> count_list h (Pio_get (sda (bus dev))) < length bits
      then bits ! count_list h (Pio_get (sda (bus dev)))
      else True)"

text \<open>
  The state at power-up: the file-scope variables are zero, nothing has happened, and no
  line is driven.
\<close>

definition power_up :: i2c_state where
  "power_up = \<lparr>pio_out = (\<lambda>pin. True), trace = [], calls = [],
               i2c_devices_num = 0, i2c_devices = Map.empty\<rparr>"

text \<open>
  The back-to-back loop: a byte is sent to an acknowledging peer, and the bits the sender
  drove are the bits that a receiver samples, in the same order. The result is the
  byte in the receiver's output location afterwards, which holds \<open>data\<close> before.
\<close>

definition loopback :: "i2c_consts \<Rightarrow> i2c_dev \<Rightarrow> 8 word \<Rightarrow> 8 word \<Rightarrow> 8 word" where
  "loopback c dev byte data =
     (let tx = snd (i2c_master_send_byte c (ack_peer dev) dev byte power_up);
          rx = i2c_master_recv_byte c (feed_peer dev (bits_of (history tx))) dev data power_up
      in fst (snd rx))"

text \<open>
  Values for the constants of the absent headers, for the closed examples only: success
  is not negative and the errors are, the flags are separate bits, the table has its
  default capacity. \<^verbatim>\<open>I2C_OK\<close> is taken as 1, the value \<^verbatim>\<open>i2c_master_send_bit\<close>
  returns when it has sent its bit.
\<close>

definition example_consts :: i2c_consts where
  "example_consts =
     \<lparr>I2C_OK = 1, I2C_ERROR_CONFLICT = - 1, I2C_ERROR_TIMEOUT = - 2,
      I2C_START = 1, I2C_STOP = 2, I2C_READ = 4, I2C_WRITE = 8,
      I2C_DEVICES_NUM = 4, I2C_CLOCK_STRETCH_TIMEOUT = 5\<rparr>"

text \<open>The same values with \<^verbatim>\<open>I2C_OK\<close> taken as 0, the first value of a C enum.\<close>

definition example_consts_ok0 :: i2c_consts where
  "example_consts_ok0 = example_consts\<lparr>I2C_OK := 0\<rparr>"

definition example_dev :: i2c_dev where
  "example_dev = \<lparr>bus = \<lparr>scl = 0, sda = 1\<rparr>, slave = \<lparr>slave_id = 0x50, addr_bytes = 1\<rparr>\<rparr>"

definition example_buffer :: "nat \<Rightarrow> 8 word" where
  "example_buffer i = (if i = 0 then 0xFF else if i = 1 then 0x81 else 0xC3)"

text \<open>Initialising one device after another, collecting the handles.\<close>

fun init_all ::
  "i2c_consts \<Rightarrow> (i2c_bus_cfg \<times> i2c_slave_cfg) list \<Rightarrow> i2c_state \<Rightarrow> nat option list \<times> i2c_state" where
  "init_all c [] s = ([], s)"
| "init_all c (cfg # cfgs) s =
     (case i2c_master_init c (fst cfg) (snd cfg) s of
        (h, s1) \<Rightarrow> (case init_all c cfgs s1 of (hs, s2) \<Rightarrow> (h # hs, s2)))"

definition example_cfgs :: "(i2c_bus_cfg \<times> i2c_slave_cfg) list" where
  "example_cfgs =
     [(\<lparr>scl = 0, sda = 1\<rparr>, \<lparr>slave_id = 0x50, addr_bytes = 1\<rparr>),
      (\<lparr>scl = 0, sda = 1\<rparr>, \<lparr>slave_id = 0x51, addr_bytes = 2\<rparr>),
      (\<lparr>scl = 2, sda = 3\<rparr>, \<lparr>slave_id = 0x68, addr_bytes = 1\<rparr>),
      (\<lparr>scl = 4, sda = 5\<rparr>, \<lparr>slave_id = 0x1D, addr_bytes = 1\<rparr>)]"

section \<open>Properties\<close>

subsection \<open>What the line driver leaves alone\<close>

lemma pio_set_fields [simp]:
  "calls (pio_set pin v s) = calls s"
  "pio_out (pio_set pin v s) = (pio_out s)(pin := v)"
  "trace (pio_set pin v s) = Pio_set pin v # trace s"
  "i2c_devices_num (pio_set pin v s) = i2c_devices_num s"
  "i2c_devices (pio_set pin v s) = i2c_devices s"
  by (simp_all add: pio_set_def)

lemma DELAY_US_fields [simp]:
  "calls (DELAY_US n s) = calls s"
  "pio_out (DELAY_US n s) = pio_out s"
  "trace (DELAY_US n s) = Delay n # trace s"
  "i2c_devices_num (DELAY_US n s) = i2c_devices_num s"
  "i2c_devices (DELAY_US n s) = i2c_devices s"
  by (simp_all add: DELAY_US_def)

lemma note_call_fields [simp]:
  "calls (note_call k s) = k # calls s"
  "pio_out (note_call k s) = pio_out s"
  "trace (note_call k s) = trace s"
  "i2c_devices_num (note_call k s) = i2c_devices_num s"
  "i2c_devices (note_call k s) = i2c_devices s"
  by (simp_all add: note_call_def)

lemma pio_get_fields [simp]:
  "fst (pio_get p pin s) = pio_level p s pin"
  "calls (snd (pio_get p pin s)) = calls s"
  "pio_out (snd (pio_get p pin s)) = pio_out s"
  "trace (snd (pio_get p pin s)) = Pio_get pin # trace s"
  "i2c_devices_num (snd (pio_get p pin s)) = i2c_devices_num s"
  "i2c_devices (snd (pio_get p pin s)) = i2c_devices s"
  by (simp_all add: pio_get_def)

lemmas line_defs = i2c_sda_set_def i2c_scl_set_def i2c_sda_get_def

lemma scl_wait_poll_frame:
  "calls (snd (scl_wait_poll c p dev n s)) = calls s \<and>
   pio_out (snd (scl_wait_poll c p dev n s)) = pio_out s \<and>
   i2c_devices_num (snd (scl_wait_poll c p dev n s)) = i2c_devices_num s \<and>
   i2c_devices (snd (scl_wait_poll c p dev n s)) = i2c_devices s"
  by (induction n arbitrary: s) (simp_all add: case_prod_unfold)

lemma i2c_scl_wait_fields [simp]:
  "calls (snd (i2c_scl_wait c p dev s)) = calls s"
  "pio_out (snd (i2c_scl_wait c p dev s)) = pio_out s"
  "i2c_devices_num (snd (i2c_scl_wait c p dev s)) = i2c_devices_num s"
  "i2c_devices (snd (i2c_scl_wait c p dev s)) = i2c_devices s"
  by (simp_all add: i2c_scl_wait_def scl_wait_poll_frame)



lemma scl_wait_poll_released:
  "pio_level p s (scl (bus dev)) \<Longrightarrow> 0 < n \<Longrightarrow>
   scl_wait_poll c p dev n s = (I2C_OK c, s\<lparr>trace := Pio_get (scl (bus dev)) # trace s\<rparr>)"
  by (cases n) (simp_all add: pio_get_def)

subsection \<open>Invocations of the bit transfers\<close>

lemma send_bit_calls [simp]:
  "calls (snd (i2c_master_send_bit c p dev b s)) = Send_bit b # calls s"
  by (simp add: i2c_master_send_bit_def Let_def case_prod_unfold line_defs)

lemma recv_bit_calls [simp]:
  "calls (snd (i2c_master_recv_bit c p dev s)) = Recv_bit # calls s"
  by (simp add: i2c_master_recv_bit_def Let_def case_prod_unfold line_defs)

lemma top_bit: "(drop_bit 7 (d :: 8 word) AND 1 \<noteq> 0) = bit d 7"
  by (simp add: and_one_eq bit_iff_odd_drop_bit odd_iff_mod_2_eq_one)

lemma send_byte_loop_calls:
  "send_byte_loop c p dev n d s = Inr s1 \<Longrightarrow> n \<le> 8 \<Longrightarrow>
   calls s1 = rev (map (\<lambda>j. Send_bit (bit d (7 - j))) [0..<n]) @ calls s"
proof (induction n arbitrary: d s)
  case 0
  then show ?case by simp
next
  case (Suc n)
  obtain ret t where sb: "i2c_master_send_bit c p dev (bit d 7) s = (ret, t)"
    by (cases "i2c_master_send_bit c p dev (bit d 7) s")
  from Suc.prems(1) sb have rest: "send_byte_loop c p dev n (push_bit 1 d) t = Inr s1"
    by (simp add: top_bit split: if_splits)
  have t: "calls t = Send_bit (bit d 7) # calls s"
    using send_bit_calls [of c p dev "bit d 7" s] sb by simp
  have shift: "\<And>j. j < n \<Longrightarrow> bit (push_bit 1 d) (7 - j) = bit d (7 - Suc j)"
  proof -
    fix j assume "j < n"
    with Suc.prems(2) have "1 \<le> 7 - j" "7 - j < 8" "7 - j - 1 = 7 - Suc j" by simp_all
    then show "bit (push_bit 1 d) (7 - j) = bit d (7 - Suc j)"
      by (simp only: bit_push_bit_iff possible_bit_word) simp
  qed
  have "map (\<lambda>j. Send_bit (bit d (7 - j))) [0..<Suc n] =
        Send_bit (bit d 7) # map (\<lambda>j. Send_bit (bit (push_bit 1 d) (7 - j))) [0..<n]"
    using shift by (simp add: upt_rec [of 0 "Suc n"] map_Suc_upt [symmetric] del: upt_Suc)
  with Suc.IH [OF rest] Suc.prems(2) t show ?case by simp
qed


lemma scl_wait_poll_numeral:
  "scl_wait_poll c p dev (numeral k) s =
     (case pio_get p (scl (bus dev)) s of
        (level, s1) \<Rightarrow>
          if level then (I2C_OK c, s1)
          else scl_wait_poll c p dev (pred_numeral k) (DELAY_US 1 s1))"
  by (simp add: numeral_eq_Suc)

lemma send_byte_loop_numeral:
  "send_byte_loop c p dev (numeral k) data s =
     (case i2c_master_send_bit c p dev (drop_bit 7 data AND 1 \<noteq> 0) s of
        (ret, s1) \<Rightarrow>
          if ret \<noteq> I2C_OK c then Inl (ret, s1)
          else send_byte_loop c p dev (pred_numeral k) (push_bit 1 data) s1)"
  by (simp add: numeral_eq_Suc)

lemma recv_byte_loop_numeral:
  "recv_byte_loop c p dev (numeral k) d s =
     (case i2c_master_recv_bit c p dev s of
        (ret, s1) \<Rightarrow>
          if ret \<noteq> I2C_OK c then Inl (ret, s1)
          else recv_byte_loop c p dev (pred_numeral k) (push_bit 1 d OR word_of_int ret) s1)"
  by (simp add: numeral_eq_Suc)

lemma send_bit_cooperative:
  assumes "0 < I2C_CLOCK_STRETCH_TIMEOUT c" and "cooperative p dev"
  shows "fst (i2c_master_send_bit c p dev b s) = 1"
proof -
  let ?s2 = "i2c_scl_set dev True (i2c_sda_set dev b (note_call (Send_bit b) s))"
  have lvl: "pio_level p ?s2 (scl (bus dev))"
    using assms(2) by (simp add: pio_level_def line_defs cooperative_def)
  have w: "i2c_scl_wait c p dev ?s2 =
           (I2C_OK c, ?s2\<lparr>trace := Pio_get (scl (bus dev)) # trace ?s2\<rparr>)"
    unfolding i2c_scl_wait_def by (rule scl_wait_poll_released [OF lvl assms(1)])
  show ?thesis
    using assms(2) w
    by (simp add: i2c_master_send_bit_def Let_def line_defs pio_get_def pio_level_def
        cooperative_def)
qed

lemma send_byte_loop_cooperative:
  assumes "I2C_OK c = 1" and "0 < I2C_CLOCK_STRETCH_TIMEOUT c" and "cooperative p dev"
  shows "\<exists>s1. send_byte_loop c p dev n d s = Inr s1"
proof (induction n arbitrary: d s)
  case 0
  show ?case by simp
next
  case (Suc n)
  have "fst (i2c_master_send_bit c p dev (bit d 7) s) = I2C_OK c"
    using send_bit_cooperative [OF assms(2,3)] assms(1) by simp
  then show ?case
    using Suc.IH by (simp add: top_bit case_prod_unfold)
qed

lemma send_byte_stops_unless_ok_is_1:
  assumes "I2C_OK c \<noteq> 1" and "0 < I2C_CLOCK_STRETCH_TIMEOUT c" and "cooperative p dev"
  shows "i2c_master_send_byte c p dev d s = (1, snd (i2c_master_send_bit c p dev (bit d 7) s))"
proof -
  have "fst (i2c_master_send_bit c p dev (bit d 7) s) = 1"
    by (rule send_bit_cooperative [OF assms(2,3)])
  with assms(1) show ?thesis
    by (simp add: i2c_master_send_byte_def send_byte_loop_numeral top_bit case_prod_unfold)
qed

lemma cooperative_ack_peer:
  "scl (bus dev) \<noteq> sda (bus dev) \<Longrightarrow> cooperative (ack_peer dev) dev"
  by (simp add: cooperative_def ack_peer_def)

lemma recv_bit_ack_peer:
  assumes "0 < I2C_CLOCK_STRETCH_TIMEOUT c" and "scl (bus dev) \<noteq> sda (bus dev)"
  shows "fst (i2c_master_recv_bit c (ack_peer dev) dev s) = 0"
proof -
  let ?s3 = "i2c_scl_set dev True (DELAY_US 4 (i2c_sda_set dev True (note_call Recv_bit s)))"
  have lvl: "pio_level (ack_peer dev) ?s3 (scl (bus dev))"
    using assms(2) by (simp add: pio_level_def line_defs ack_peer_def)
  have w: "i2c_scl_wait c (ack_peer dev) dev ?s3 =
           (I2C_OK c, ?s3\<lparr>trace := Pio_get (scl (bus dev)) # trace ?s3\<rparr>)"
    unfolding i2c_scl_wait_def by (rule scl_wait_poll_released [OF lvl assms(1)])
  show ?thesis
    using w by (simp add: i2c_master_recv_bit_def Let_def line_defs pio_get_def pio_level_def
        ack_peer_def)
qed

lemma send_byte_all_bits:
  assumes "I2C_OK c = 1" and "0 < I2C_CLOCK_STRETCH_TIMEOUT c" and "cooperative p dev"
  shows "\<exists>s1. i2c_master_send_byte c p dev d s = i2c_master_recv_bit c p dev s1 \<and>
           history s1 = history s @ map Send_bit (msb_first d)"
proof -
  obtain s1 where run: "send_byte_loop c p dev 8 d s = Inr s1"
    using send_byte_loop_cooperative [OF assms] by blast
  have "calls s1 = rev (map (\<lambda>j. Send_bit (bit d (7 - j))) [0..<8]) @ calls s"
    by (rule send_byte_loop_calls [OF run]) simp
  moreover have "map (\<lambda>j. Send_bit (bit d (7 - j))) [0..<8] = map Send_bit (msb_first d)"
    by (simp add: msb_first_def upt_rec)
  ultimately have "history s1 = history s @ map Send_bit (msb_first d)"
    by (simp add: history_def)
  with run show ?thesis
    by (auto simp add: i2c_master_send_byte_def i2c_master_recv_ack_def)
qed

lemma send_byte_ack_peer:
  assumes "0 < I2C_CLOCK_STRETCH_TIMEOUT c" and "scl (bus dev) \<noteq> sda (bus dev)"
  shows "i2c_master_send_byte c (ack_peer dev) dev d s = (r, s1) \<Longrightarrow>
     (if I2C_OK c = 1
      then r = 0 \<and> history s1 = history s @ map Send_bit (msb_first d) @ [Recv_bit]
      else r = 1 \<and> history s1 = history s @ [Send_bit (bit d 7)])"
proof -
  assume run: "i2c_master_send_byte c (ack_peer dev) dev d s = (r, s1)"
  have coop: "cooperative (ack_peer dev) dev"
    by (rule cooperative_ack_peer [OF assms(2)])
  show ?thesis
  proof (cases "I2C_OK c = 1")
    case True
    obtain t where t: "i2c_master_send_byte c (ack_peer dev) dev d s =
        i2c_master_recv_bit c (ack_peer dev) dev t"
      and h: "history t = history s @ map Send_bit (msb_first d)"
      using send_byte_all_bits [OF True assms(1) coop] by blast
    from t run have rb: "i2c_master_recv_bit c (ack_peer dev) dev t = (r, s1)"
      by simp
    have "r = 0"
      using recv_bit_ack_peer [OF assms, of t] by (simp add: rb)
    moreover have "calls s1 = Recv_bit # calls t"
      using recv_bit_calls [of c "ack_peer dev" dev t] by (simp add: rb)
    ultimately show ?thesis
      using True h by (simp add: history_def)
  next
    case False
    have "i2c_master_send_byte c (ack_peer dev) dev d s =
        (1, snd (i2c_master_send_bit c (ack_peer dev) dev (bit d 7) s))"
      by (rule send_byte_stops_unless_ok_is_1 [OF False assms(1) coop])
    with run have "r = 1" and "s1 = snd (i2c_master_send_bit c (ack_peer dev) dev (bit d 7) s)"
      by simp_all
    with False show ?thesis
      by (simp add: history_def)
  qed
qed



text \<open>
  C5. \<^verbatim>\<open>i2c_master_send_start\<close> samples the data line once. If it reads low, the
  result is the bus-conflict error and nothing else has happened: no line is set and
  nothing is waited for. If it reads high, the data line is driven low, then (after the
  settle delay) the clock line, and the result is \<^verbatim>\<open>I2C_OK\<close>.
\<close>

theorem i2c_master_send_start_conflict:
  "i2c_master_send_start c p dev s =
     (if pio_level p s (sda (bus dev))
      then (I2C_OK c,
            s\<lparr>pio_out := (pio_out s)(sda (bus dev) := False, scl (bus dev) := False),
              trace := [Pio_set (scl (bus dev)) False, Delay 4, Pio_set (sda (bus dev)) False,
                        Pio_get (sda (bus dev))] @ trace s,
              calls := Send_start # calls s\<rparr>)
      else (I2C_ERROR_CONFLICT c,
            s\<lparr>trace := Pio_get (sda (bus dev)) # trace s, calls := Send_start # calls s\<rparr>))"
  by (simp add: i2c_master_send_start_def line_defs pio_get_def pio_set_def DELAY_US_def
      note_call_def pio_level_def)




text \<open>
  C4. The second phase of \<^verbatim>\<open>i2c_master_addr_read\<close> is a transfer with the flags
  \<^verbatim>\<open>I2C_WRITE | I2C_STOP\<close>, not with \<^verbatim>\<open>I2C_READ\<close>, and the function is equal to
  \<^verbatim>\<open>i2c_master_addr_write\<close>: on the same arguments the two do the same things and
  return the same result.
\<close>

theorem i2c_master_addr_read_is_write:
  "i2c_master_addr_read = i2c_master_addr_write \<and>
   i2c_master_addr_read c p dev addr buffer sz s =
     (case i2c_master_transfer c p dev addr (addr_bytes (slave dev))
             (I2C_START c OR I2C_WRITE c) s of
        (ret, addr1, s1) \<Rightarrow>
          if ret < 0 then (ret, buffer, s1)
          else i2c_master_transfer c p dev buffer sz (I2C_WRITE c OR I2C_STOP c) s1)"
proof
  show "i2c_master_addr_read = i2c_master_addr_write"
    by (intro ext) (simp add: i2c_master_addr_read_def i2c_master_addr_write_def)
qed (simp add: i2c_master_addr_read_def)

subsection \<open>Receiving a byte\<close>

lemma recv_byte_loop_Inl:
  "recv_byte_loop c p dev n d s = Inl (r, s1) \<Longrightarrow>
   r \<noteq> I2C_OK c \<and> (\<exists>t. i2c_master_recv_bit c p dev t = (r, s1))"
proof (induction n arbitrary: d s)
  case 0
  then show ?case by simp
next
  case (Suc n)
  obtain ret t where rb: "i2c_master_recv_bit c p dev s = (ret, t)"
    by (cases "i2c_master_recv_bit c p dev s")
  show ?case
  proof (cases "ret = I2C_OK c")
    case True
    with Suc.prems rb have "recv_byte_loop c p dev n (push_bit 1 d OR word_of_int ret) t = Inl (r, s1)"
      by simp
    then show ?thesis by (rule Suc.IH)
  next
    case False
    with Suc.prems rb have "r = ret" "s1 = t" by simp_all
    with False rb show ?thesis by blast
  qed
qed

lemma recv_byte_loop_calls:
  "recv_byte_loop c p dev n d s = Inr (d1, s1) \<Longrightarrow> calls s1 = replicate n Recv_bit @ calls s"
proof (induction n arbitrary: d s)
  case 0
  then show ?case by simp
next
  case (Suc n)
  obtain ret t where rb: "i2c_master_recv_bit c p dev s = (ret, t)"
    by (cases "i2c_master_recv_bit c p dev s")
  from Suc.prems rb
  have rest: "recv_byte_loop c p dev n (push_bit 1 d OR word_of_int ret) t = Inr (d1, s1)"
    by (simp split: if_splits)
  have "calls t = Recv_bit # calls s"
    using recv_bit_calls [of c p dev s] rb by simp
  with Suc.IH [OF rest] show ?case
    by (simp add: replicate_app_Cons_same)
qed

subsection \<open>Bit receptions in a row\<close>

lemma after_bits_shift:
  "after_bits c p dev k (snd (i2c_master_recv_bit c p dev s)) = after_bits c p dev (Suc k) s"
  by (induction k) simp_all

lemma bit_result_shift:
  "bit_result c p dev k (snd (i2c_master_recv_bit c p dev s)) = bit_result c p dev (Suc k) s"
  unfolding bit_result_def after_bits_shift ..

lemma recv_byte_loop_first_failure:
  "k < n \<Longrightarrow> \<forall>j<k. bit_result c p dev j s = I2C_OK c \<Longrightarrow>
   bit_result c p dev k s \<noteq> I2C_OK c \<Longrightarrow>
   recv_byte_loop c p dev n d s = Inl (bit_result c p dev k s, after_bits c p dev (Suc k) s)"
proof (induction n arbitrary: k d s)
  case 0
  then show ?case by simp
next
  case (Suc n)
  let ?s1 = "snd (i2c_master_recv_bit c p dev s)"
  show ?case
  proof (cases k)
    case 0
    with Suc.prems(3) show ?thesis
      by (simp add: bit_result_def case_prod_unfold)
  next
    case (Suc k')
    with Suc.prems(2) have first: "fst (i2c_master_recv_bit c p dev s) = I2C_OK c"
      by (auto simp add: bit_result_def)
    from Suc Suc.prems have "k' < n"
      and "\<forall>j<k'. bit_result c p dev j ?s1 = I2C_OK c"
      and "bit_result c p dev k' ?s1 \<noteq> I2C_OK c"
      by (auto simp add: bit_result_shift)
    from Suc.IH [OF this, of "push_bit 1 d OR word_of_int (I2C_OK c)"] first Suc
    show ?thesis
      by (simp add: case_prod_unfold bit_result_shift after_bits_shift del: after_bits.simps)
  qed
qed

lemma recv_byte_loop_all_ok:
  "\<forall>j<n. bit_result c p dev j s = I2C_OK c \<Longrightarrow>
   recv_byte_loop c p dev n d s =
     Inr (foldl (\<lambda>d r. push_bit 1 d OR word_of_int r) d
            (map (\<lambda>j. bit_result c p dev j s) [0..<n]),
          after_bits c p dev n s)"
proof (induction n arbitrary: d s)
  case 0
  show ?case by simp
next
  case (Suc n)
  let ?s1 = "snd (i2c_master_recv_bit c p dev s)"
  from Suc.prems have first: "fst (i2c_master_recv_bit c p dev s) = I2C_OK c"
    by (auto simp add: bit_result_def)
  from Suc.prems have "\<forall>j<n. bit_result c p dev j ?s1 = I2C_OK c"
    by (auto simp add: bit_result_shift)
  note ih = Suc.IH [OF this, of "push_bit 1 d OR word_of_int (I2C_OK c)"]
  have m: "map (\<lambda>j. bit_result c p dev j s) [0..<Suc n] =
      bit_result c p dev 0 s # map (\<lambda>j. bit_result c p dev j ?s1) [0..<n]"
    by (simp add: upt_rec [of 0 "Suc n"] map_Suc_upt [symmetric] bit_result_shift
        del: upt_Suc)
  have r0: "bit_result c p dev 0 s = I2C_OK c"
    using first by (simp add: bit_result_def)
  show ?case
    unfolding m r0 using ih first
    by (simp add: case_prod_unfold after_bits_shift del: after_bits.simps upt_Suc)
qed

lemma recv_bit_idle_bus:
  assumes "0 < I2C_CLOCK_STRETCH_TIMEOUT c"
  shows "fst (i2c_master_recv_bit c idle_bus dev s) = 1"
proof -
  let ?s3 = "i2c_scl_set dev True (DELAY_US 4 (i2c_sda_set dev True (note_call Recv_bit s)))"
  have lvl: "pio_level idle_bus ?s3 (scl (bus dev))"
    by (simp add: pio_level_def line_defs idle_bus_def)
  have w: "i2c_scl_wait c idle_bus dev ?s3 =
           (I2C_OK c, ?s3\<lparr>trace := Pio_get (scl (bus dev)) # trace ?s3\<rparr>)"
    unfolding i2c_scl_wait_def by (rule scl_wait_poll_released [OF lvl assms])
  show ?thesis
    using w by (simp add: i2c_master_recv_bit_def Let_def line_defs pio_get_def pio_level_def
        idle_bus_def)
qed

text \<open>
  C9. The bit receptions of \<^verbatim>\<open>i2c_master_recv_byte\<close> follow one another, each in the
  state the one before left. If one of the eight fails (returns something other than
  \<^verbatim>\<open>I2C_OK\<close>) after those before it went through, the function returns what that
  reception returned, in the state it left, and the output location keeps its byte. If
  all eight go through, the assembled byte is written and the acknowledge is sent. So the
  output location changes only if all eight receptions go through.
\<close>

theorem i2c_master_recv_byte_failure:
  "(k < 8 \<and> (\<forall>j<k. bit_result c p dev j s = I2C_OK c) \<and>
    bit_result c p dev k s \<noteq> I2C_OK c \<longrightarrow>
      i2c_master_recv_byte c p dev data s =
        (bit_result c p dev k s, data, after_bits c p dev (Suc k) s)) \<and>
   ((\<forall>j<8. bit_result c p dev j s = I2C_OK c) \<longrightarrow>
      i2c_master_recv_byte c p dev data s =
        (fst (i2c_master_send_ack c p dev (after_bits c p dev 8 s)),
         assemble (map (\<lambda>j. bit_result c p dev j s) [0..<8]),
         snd (i2c_master_send_ack c p dev (after_bits c p dev 8 s)))) \<and>
   (fst (snd (i2c_master_recv_byte c p dev data s)) \<noteq> data \<longrightarrow>
      (\<forall>j<8. bit_result c p dev j s = I2C_OK c))"
proof (intro conjI impI)
  assume "k < 8 \<and> (\<forall>j<k. bit_result c p dev j s = I2C_OK c) \<and>
    bit_result c p dev k s \<noteq> I2C_OK c"
  then have "recv_byte_loop c p dev 8 0 s =
      Inl (bit_result c p dev k s, after_bits c p dev (Suc k) s)"
    by (intro recv_byte_loop_first_failure) simp_all
  then show "i2c_master_recv_byte c p dev data s =
        (bit_result c p dev k s, data, after_bits c p dev (Suc k) s)"
    by (simp add: i2c_master_recv_byte_def)
next
  assume "\<forall>j<8. bit_result c p dev j s = I2C_OK c"
  from recv_byte_loop_all_ok [OF this, of 0]
  show "i2c_master_recv_byte c p dev data s =
        (fst (i2c_master_send_ack c p dev (after_bits c p dev 8 s)),
         assemble (map (\<lambda>j. bit_result c p dev j s) [0..<8]),
         snd (i2c_master_send_ack c p dev (after_bits c p dev 8 s)))"
    by (simp add: i2c_master_recv_byte_def assemble_def case_prod_unfold
        del: after_bits.simps upt_Suc)
next
  assume ch: "fst (snd (i2c_master_recv_byte c p dev data s)) \<noteq> data"
  show "\<forall>j<8. bit_result c p dev j s = I2C_OK c"
  proof (rule ccontr)
    assume "\<not> (\<forall>j<8. bit_result c p dev j s = I2C_OK c)"
    then obtain m where m: "m < 8 \<and> bit_result c p dev m s \<noteq> I2C_OK c" by blast
    define k where "k = (LEAST m. m < 8 \<and> bit_result c p dev m s \<noteq> I2C_OK c)"
    have k: "k < 8 \<and> bit_result c p dev k s \<noteq> I2C_OK c"
      unfolding k_def by (rule LeastI [of _ m]) (rule m)
    have before: "\<forall>j<k. bit_result c p dev j s = I2C_OK c"
    proof (intro allI impI)
      fix j assume "j < k"
      then have "\<not> (j < 8 \<and> bit_result c p dev j s \<noteq> I2C_OK c)"
        unfolding k_def by (rule not_less_Least)
      with \<open>j < k\<close> k show "bit_result c p dev j s = I2C_OK c" by simp
    qed
    from k before have "recv_byte_loop c p dev 8 0 s =
        Inl (bit_result c p dev k s, after_bits c p dev (Suc k) s)"
      by (intro recv_byte_loop_first_failure) simp_all
    with ch show False
      by (simp add: i2c_master_recv_byte_def)
  qed
qed


lemmas run_defs =
  i2c_master_send_byte_def i2c_master_recv_byte_def i2c_master_send_bit_def
  i2c_master_recv_bit_def i2c_master_recv_ack_def i2c_master_send_ack_def
  i2c_master_send_start_def i2c_master_send_stop_def i2c_master_send_addr_def
  i2c_scl_wait_def send_byte_loop_numeral recv_byte_loop_numeral scl_wait_poll_numeral
  Let_def i2c_sda_set_def i2c_scl_set_def i2c_sda_get_def
  pio_get_def pio_set_def pio_level_def DELAY_US_def note_call_def

lemmas example_defs =
  example_consts_def example_dev_def power_up_def idle_bus_def clock_held_def data_held_def
  ack_peer_def

theorem i2c_master_recv_byte_failure_witness:
  "fst (i2c_master_recv_byte example_consts (feed_peer example_dev [True, True, False])
      example_dev 0x3C power_up) = 0 \<and>
   fst (snd (i2c_master_recv_byte example_consts (feed_peer example_dev [True, True, False])
      example_dev 0x3C power_up)) = 0x3C \<and>
   fst (i2c_master_recv_byte example_consts (clock_held example_dev) example_dev 0x3C power_up)
     = - 2 \<and>
   fst (snd (i2c_master_recv_byte example_consts (clock_held example_dev) example_dev 0x3C
     power_up)) = 0x3C \<and>
   i2c_master_recv_byte example_consts idle_bus example_dev 0x3C power_up =
     (fst (i2c_master_send_ack example_consts idle_bus example_dev
            (after_bits example_consts idle_bus example_dev 8 power_up)),
      0xFF,
      snd (i2c_master_send_ack example_consts idle_bus example_dev
            (after_bits example_consts idle_bus example_dev 8 power_up))) \<and>
   bit_result example_consts idle_bus example_dev 0 power_up = 1 \<and>
   bit_result example_consts idle_bus example_dev 7 power_up = 1"
proof -
  let ?feed = "feed_peer example_dev [True, True, False]"
  have ok: "I2C_OK example_consts = 1" "0 < I2C_CLOCK_STRETCH_TIMEOUT example_consts"
    by (simp_all add: example_consts_def)
  have f0: "bit_result example_consts ?feed example_dev 0 power_up = 1"
    by (simp add: bit_result_def run_defs example_defs feed_peer_def)
  have f1: "bit_result example_consts ?feed example_dev (Suc 0) power_up = 1"
    by (simp add: bit_result_def run_defs example_defs feed_peer_def)
  have f2: "bit_result example_consts ?feed example_dev (Suc (Suc 0)) power_up = 0"
    by (simp add: bit_result_def run_defs example_defs feed_peer_def)
  have before: "\<forall>j<Suc (Suc 0). bit_result example_consts ?feed example_dev j power_up =
      I2C_OK example_consts"
    using f0 f1 by (simp add: less_Suc_eq ok)
  have "Suc (Suc 0) < 8 \<and>
      (\<forall>j<Suc (Suc 0). bit_result example_consts ?feed example_dev j power_up =
         I2C_OK example_consts) \<and>
      bit_result example_consts ?feed example_dev (Suc (Suc 0)) power_up \<noteq>
         I2C_OK example_consts"
    using before f2 ok by simp
  with i2c_master_recv_byte_failure
      [of "Suc (Suc 0)" example_consts ?feed example_dev power_up "0x3C"]
  have "i2c_master_recv_byte example_consts ?feed example_dev 0x3C power_up =
     (bit_result example_consts ?feed example_dev (Suc (Suc 0)) power_up, 0x3C,
      after_bits example_consts ?feed example_dev (Suc (Suc (Suc 0))) power_up)"
    by blast
  then have a: "fst (i2c_master_recv_byte example_consts ?feed example_dev 0x3C power_up) = 0"
    "fst (snd (i2c_master_recv_byte example_consts ?feed example_dev 0x3C power_up)) = 0x3C"
    by (simp_all only: f2 fst_conv snd_conv)
  have g0: "bit_result example_consts (clock_held example_dev) example_dev 0 power_up = - 2"
    by (simp add: bit_result_def run_defs example_defs)
  then have "0 < (8 :: nat) \<and>
      (\<forall>j<0. bit_result example_consts (clock_held example_dev) example_dev j power_up =
         I2C_OK example_consts) \<and>
      bit_result example_consts (clock_held example_dev) example_dev 0 power_up \<noteq>
         I2C_OK example_consts"
    using ok by simp
  with i2c_master_recv_byte_failure
      [of 0 example_consts "clock_held example_dev" example_dev power_up "0x3C"]
  have "i2c_master_recv_byte example_consts (clock_held example_dev) example_dev 0x3C
      power_up = (bit_result example_consts (clock_held example_dev) example_dev 0 power_up,
        0x3C, after_bits example_consts (clock_held example_dev) example_dev (Suc 0) power_up)"
    by blast
  then have b:
    "fst (i2c_master_recv_byte example_consts (clock_held example_dev) example_dev 0x3C
       power_up) = - 2"
    "fst (snd (i2c_master_recv_byte example_consts (clock_held example_dev) example_dev 0x3C
       power_up)) = 0x3C"
    by (simp_all only: g0 fst_conv snd_conv)
  have all: "\<forall>j<8. bit_result example_consts idle_bus example_dev j power_up =
      I2C_OK example_consts"
    using recv_bit_idle_bus [OF ok(2)] by (simp add: bit_result_def ok)
  have asm: "assemble (map (\<lambda>j. bit_result example_consts idle_bus example_dev j power_up)
      [0..<8]) = 0xFF"
  proof -
    have "map (\<lambda>j. bit_result example_consts idle_bus example_dev j power_up) [0..<8] =
        map (\<lambda>j. 1) [0..<8]"
      using all ok by (intro map_cong) simp_all
    then show ?thesis
      by (simp only: assemble_def) (simp add: upt_rec del: upt_Suc)
  qed
  from i2c_master_recv_byte_failure
      [of 0 example_consts idle_bus example_dev power_up "0x3C"] all
  have c: "i2c_master_recv_byte example_consts idle_bus example_dev 0x3C power_up =
     (fst (i2c_master_send_ack example_consts idle_bus example_dev
            (after_bits example_consts idle_bus example_dev 8 power_up)),
      assemble (map (\<lambda>j. bit_result example_consts idle_bus example_dev j power_up) [0..<8]),
      snd (i2c_master_send_ack example_consts idle_bus example_dev
            (after_bits example_consts idle_bus example_dev 8 power_up)))"
    by blast
  from all have "bit_result example_consts idle_bus example_dev 0 power_up = 1"
    and "bit_result example_consts idle_bus example_dev 7 power_up = 1"
    unfolding ok(1) by simp_all
  with a b c show ?thesis
    unfolding asm by blast
qed

text \<open>
  C10. A bit transfer drives the clock line low again only where it runs to its end.
  Where the clock wait inside it returns something other than \<^verbatim>\<open>I2C_OK\<close> (the
  clock-stretch timeout), the transfer returns that and the clock line is still set high.
  Where \<^verbatim>\<open>i2c_master_send_bit\<close> sends a 1 and samples the data line low (arbitration
  is lost), it returns 0 and the clock line is still set high. In the remaining cases
  \<^verbatim>\<open>i2c_master_send_bit\<close> returns 1 and \<^verbatim>\<open>i2c_master_recv_bit\<close> the sampled bit,
  with the clock line driven low.
\<close>

theorem bit_transfer_clock_left_high:
  "(fst (send_bit_wait c p dev b s) \<noteq> I2C_OK c \<longrightarrow>
      fst (i2c_master_send_bit c p dev b s) = fst (send_bit_wait c p dev b s) \<and>
      pio_out (snd (i2c_master_send_bit c p dev b s)) (scl (bus dev))) \<and>
   (fst (send_bit_wait c p dev b s) = I2C_OK c \<and> b \<and>
    \<not> pio_level p (snd (send_bit_wait c p dev b s)) (sda (bus dev)) \<longrightarrow>
      fst (i2c_master_send_bit c p dev b s) = 0 \<and>
      pio_out (snd (i2c_master_send_bit c p dev b s)) (scl (bus dev))) \<and>
   (fst (send_bit_wait c p dev b s) = I2C_OK c \<and>
    (pio_level p (snd (send_bit_wait c p dev b s)) (sda (bus dev)) \<or> \<not> b) \<longrightarrow>
      fst (i2c_master_send_bit c p dev b s) = 1 \<and>
      \<not> pio_out (snd (i2c_master_send_bit c p dev b s)) (scl (bus dev))) \<and>
   (fst (recv_bit_wait c p dev s) \<noteq> I2C_OK c \<longrightarrow>
      fst (i2c_master_recv_bit c p dev s) = fst (recv_bit_wait c p dev s) \<and>
      pio_out (snd (i2c_master_recv_bit c p dev s)) (scl (bus dev))) \<and>
   (fst (recv_bit_wait c p dev s) = I2C_OK c \<longrightarrow>
      fst (i2c_master_recv_bit c p dev s) =
        of_bool (pio_level p (snd (recv_bit_wait c p dev s)) (sda (bus dev))) \<and>
      \<not> pio_out (snd (i2c_master_recv_bit c p dev s)) (scl (bus dev)))"
  by (auto simp add: send_bit_wait_def recv_bit_wait_def i2c_master_send_bit_def
      i2c_master_recv_bit_def Let_def case_prod_unfold line_defs)

theorem bit_transfer_clock_left_high_witness:
  "fst (i2c_master_send_bit example_consts (clock_held example_dev) example_dev True power_up)
     = - 2 \<and>
   pio_out (snd (i2c_master_send_bit example_consts (clock_held example_dev) example_dev True
     power_up)) 0 \<and>
   fst (i2c_master_send_bit example_consts (data_held example_dev) example_dev True power_up)
     = 0 \<and>
   pio_out (snd (i2c_master_send_bit example_consts (data_held example_dev) example_dev True
     power_up)) 0 \<and>
   fst (i2c_master_send_bit example_consts idle_bus example_dev True power_up) = 1 \<and>
   \<not> pio_out (snd (i2c_master_send_bit example_consts idle_bus example_dev True power_up)) 0 \<and>
   fst (i2c_master_recv_bit example_consts (clock_held example_dev) example_dev power_up)
     = - 2 \<and>
   pio_out (snd (i2c_master_recv_bit example_consts (clock_held example_dev) example_dev
     power_up)) 0 \<and>
   fst (i2c_master_recv_bit example_consts (data_held example_dev) example_dev power_up) = 0 \<and>
   \<not> pio_out (snd (i2c_master_recv_bit example_consts (data_held example_dev) example_dev
     power_up)) 0"
proof -
  have w1: "fst (send_bit_wait example_consts (clock_held example_dev) example_dev True power_up)
      = - 2"
    by (simp add: send_bit_wait_def run_defs example_defs)
  have w2: "fst (send_bit_wait example_consts (data_held example_dev) example_dev True power_up)
      = 1 \<and>
      \<not> pio_level (data_held example_dev)
         (snd (send_bit_wait example_consts (data_held example_dev) example_dev True power_up)) 1"
    by (simp add: send_bit_wait_def run_defs example_defs)
  have w3: "fst (send_bit_wait example_consts idle_bus example_dev True power_up) = 1 \<and>
      pio_level idle_bus
         (snd (send_bit_wait example_consts idle_bus example_dev True power_up)) 1"
    by (simp add: send_bit_wait_def run_defs example_defs)
  have w4: "fst (recv_bit_wait example_consts (clock_held example_dev) example_dev power_up)
      = - 2"
    by (simp add: recv_bit_wait_def run_defs example_defs)
  have w5: "fst (recv_bit_wait example_consts (data_held example_dev) example_dev power_up) = 1 \<and>
      \<not> pio_level (data_held example_dev)
         (snd (recv_bit_wait example_consts (data_held example_dev) example_dev power_up)) 1"
    by (simp add: recv_bit_wait_def run_defs example_defs)
  have c: "I2C_OK example_consts = 1" "scl (bus example_dev) = 0" "sda (bus example_dev) = 1"
    by (simp_all add: example_consts_def example_dev_def)
  from bit_transfer_clock_left_high
      [of example_consts "clock_held example_dev" example_dev True power_up]
    bit_transfer_clock_left_high
      [of example_consts "data_held example_dev" example_dev True power_up]
    bit_transfer_clock_left_high
      [of example_consts idle_bus example_dev True power_up]
    w1 w2 w3 w4 w5
  show ?thesis
    unfolding c by simp
qed

subsection \<open>The byte a reception can assemble\<close>

lemma assembled_bit0:
  "bit (push_bit 1 (d :: 8 word) OR k) 0 = bit k 0"
  by (simp only: bit_or_iff bit_push_bit_iff) simp

lemma assembled_bit1:
  "bit (push_bit 1 (d :: 8 word) OR k) 1 = (bit d 0 \<or> bit k 1)"
  by (simp only: bit_or_iff bit_push_bit_iff possible_bit_word) simp

lemma recv_byte_loop_low_bits:
  "recv_byte_loop c p dev n d s = Inr (d1, s1) \<Longrightarrow> 0 < n \<Longrightarrow>
   bit d 0 = bit (word_of_int (I2C_OK c) :: 8 word) 0 \<Longrightarrow> bit d1 0 \<longrightarrow> bit d1 1"
proof (induction n arbitrary: d s)
  case 0
  then show ?case by simp
next
  case (Suc n)
  let ?k = "word_of_int (I2C_OK c) :: 8 word"
  obtain ret t where rb: "i2c_master_recv_bit c p dev s = (ret, t)"
    by (cases "i2c_master_recv_bit c p dev s")
  from Suc.prems(1) rb have ok: "ret = I2C_OK c"
    and rest: "recv_byte_loop c p dev n (push_bit 1 d OR ?k) t = Inr (d1, s1)"
    by (simp_all split: if_splits)
  show ?case
  proof (cases n)
    case 0
    with rest have "d1 = push_bit 1 d OR ?k" by simp
    with Suc.prems(3) show ?thesis
      by (simp only: assembled_bit0 assembled_bit1) simp
  next
    case (Suc m)
    then have "0 < n" by simp
    from Suc.IH [OF rest this] show ?thesis
      by (simp only: assembled_bit0) simp
  qed
qed

lemma recv_byte_never_0x55:
  "fst (snd (i2c_master_recv_byte c p dev 0 s)) \<noteq> 0x55"
proof (cases "recv_byte_loop c p dev 8 0 s")
  case (Inl a)
  then show ?thesis
    by (simp add: i2c_master_recv_byte_def case_prod_unfold)
next
  case (Inr b)
  obtain d1 s1 where b: "b = (d1, s1)" by (cases b)
  obtain ret t where rb: "i2c_master_recv_bit c p dev s = (ret, t)"
    by (cases "i2c_master_recv_bit c p dev s")
  let ?k = "word_of_int (I2C_OK c) :: 8 word"
  from Inr b rb have rest: "recv_byte_loop c p dev 7 (push_bit 1 0 OR ?k) t = Inr (d1, s1)"
    by (simp add: recv_byte_loop_numeral split: if_splits)
  have "bit d1 0 \<longrightarrow> bit d1 1"
  proof (rule recv_byte_loop_low_bits [OF rest])
    show "(0 :: nat) < 7" by simp
    show "bit (push_bit 1 0 OR ?k) 0 = bit ?k 0" by (rule assembled_bit0)
  qed
  moreover have "bit (0x55 :: 8 word) 0" "\<not> bit (0x55 :: 8 word) 1"
    by simp_all
  ultimately have "d1 \<noteq> 0x55" by blast
  with Inr b show ?thesis
    by (simp add: i2c_master_recv_byte_def case_prod_unfold)
qed

text \<open>
  C1. The byte 0x55 does not come back from the back-to-back loop, whatever the value
  of \<^verbatim>\<open>I2C_OK\<close>: an output location that holds 0 before does not hold 0x55 after.
  \<^verbatim>\<open>i2c_master_recv_byte\<close> goes on only after a \<^verbatim>\<open>i2c_master_recv_bit\<close> that
  returns \<^verbatim>\<open>I2C_OK\<close>, so it stops at the first sampled bit that differs from that
  constant, and a byte with both a 0 and a 1 among its bits is never assembled.
\<close>

theorem loopback_loses_0x55:
  "loopback c dev 0x55 0 \<noteq> 0x55"
  unfolding loopback_def Let_def by (rule recv_byte_never_0x55)

lemma loopback_returns_0xFF:
  "loopback example_consts example_dev 0xFF 0 = 0xFF"
  by (simp add: loopback_def run_defs example_defs feed_peer_def history_def)

subsection \<open>Start and stop conditions of a transfer\<close>

lemma same_conditions_refl [simp]: "same_conditions s s"
  by (simp add: same_conditions_def)

lemma same_conditions_trans:
  "same_conditions s t \<Longrightarrow> same_conditions t u \<Longrightarrow> same_conditions s u"
  by (simp add: same_conditions_def)

lemma send_bit_conditions: "same_conditions s (snd (i2c_master_send_bit c p dev b s))"
  by (simp add: same_conditions_def start_conditions_def stop_conditions_def)

lemma recv_bit_conditions: "same_conditions s (snd (i2c_master_recv_bit c p dev s))"
  by (simp add: same_conditions_def start_conditions_def stop_conditions_def)

lemma send_byte_loop_conditions:
  "(send_byte_loop c p dev n d s = Inl (r, s1) \<longrightarrow> same_conditions s s1) \<and>
   (send_byte_loop c p dev n d s = Inr s1 \<longrightarrow> same_conditions s s1)"
proof (induction n arbitrary: d s)
  case 0
  show ?case by auto
next
  case (Suc n)
  obtain ret t where sb: "i2c_master_send_bit c p dev (drop_bit 7 d AND 1 \<noteq> 0) s = (ret, t)"
    by (cases "i2c_master_send_bit c p dev (drop_bit 7 d AND 1 \<noteq> 0) s")
  have st: "same_conditions s t"
    using send_bit_conditions [of s c p dev "drop_bit 7 d AND 1 \<noteq> 0"] sb by simp
  show ?case
    using sb st Suc.IH [of "push_bit 1 d" t]
    by (auto intro: same_conditions_trans)
qed

lemma send_byte_conditions: "same_conditions s (snd (i2c_master_send_byte c p dev d s))"
proof (cases "send_byte_loop c p dev 8 d s")
  case (Inl a)
  obtain r s1 where "a = (r, s1)" by (cases a)
  with Inl send_byte_loop_conditions [of c p dev 8 d s r s1] show ?thesis
    by (simp add: i2c_master_send_byte_def)
next
  case (Inr s1)
  with send_byte_loop_conditions [of c p dev 8 d s _ s1]
  have "same_conditions s s1" by simp
  with Inr recv_bit_conditions [of s1 c p dev] show ?thesis
    by (auto simp add: i2c_master_send_byte_def i2c_master_recv_ack_def
        intro: same_conditions_trans)
qed

lemma recv_byte_loop_conditions:
  "(recv_byte_loop c p dev n d s = Inl (r, s1) \<longrightarrow> same_conditions s s1) \<and>
   (recv_byte_loop c p dev n d s = Inr (d1, s1) \<longrightarrow> same_conditions s s1)"
proof (induction n arbitrary: d s)
  case 0
  show ?case by auto
next
  case (Suc n)
  obtain ret t where rb: "i2c_master_recv_bit c p dev s = (ret, t)"
    by (cases "i2c_master_recv_bit c p dev s")
  have st: "same_conditions s t"
    using recv_bit_conditions [of s c p dev] rb by simp
  show ?case
    using rb st Suc.IH [of "push_bit 1 d OR word_of_int ret" t]
    by (auto intro: same_conditions_trans)
qed

lemma recv_byte_conditions:
  "same_conditions s (snd (snd (i2c_master_recv_byte c p dev data s)))"
proof (cases "recv_byte_loop c p dev 8 0 s")
  case (Inl a)
  obtain r s1 where "a = (r, s1)" by (cases a)
  with Inl recv_byte_loop_conditions [of c p dev 8 0 s r s1] show ?thesis
    by (simp add: i2c_master_recv_byte_def)
next
  case (Inr b)
  obtain d1 s1 where b: "b = (d1, s1)" by (cases b)
  with Inr recv_byte_loop_conditions [of c p dev 8 0 s _ s1 d1]
  have "same_conditions s s1" by simp
  with Inr b send_bit_conditions [of s1 c p dev False] show ?thesis
    by (auto simp add: i2c_master_recv_byte_def i2c_master_send_ack_def case_prod_unfold
        intro: same_conditions_trans)
qed

lemma transfer_loop_unfold:
  assumes "i < n"
    and "(if action AND I2C_WRITE c \<noteq> 0
          then (case i2c_master_send_byte c p dev (data i) s of
                  (ret, s1) \<Rightarrow> (ret, data, s1))
          else (case i2c_master_recv_byte c p dev (data i) s of
                  (ret, d, s1) \<Rightarrow> (ret, data(i := d), s1))) = (ret, data2, s2)"
  shows "transfer_loop c p dev action i n data s =
     (if ret \<noteq> I2C_OK c then (Inl ret, data2, s2)
      else transfer_loop c p dev action (Suc i) n data2 s2)"
  using assms by (subst transfer_loop.simps) simp

lemma transfer_loop_conditions:
  "same_conditions s (snd (snd (transfer_loop c p dev action i n data s)))"
proof (induction c p dev action i n data s rule: transfer_loop.induct)
  case (1 c p dev action i n data s)
  show ?case
  proof (cases "i < n")
    case False
    then show ?thesis by (subst transfer_loop.simps) simp
  next
    case True
    let ?step = "if action AND I2C_WRITE c \<noteq> 0
               then (case i2c_master_send_byte c p dev (data i) s of
                       (ret, s1) \<Rightarrow> (ret, data, s1))
               else (case i2c_master_recv_byte c p dev (data i) s of
                       (ret, d, s1) \<Rightarrow> (ret, data(i := d), s1))"
    obtain ret data2 s2 where step: "?step = (ret, data2, s2)"
      by (cases ?step)
    have st: "same_conditions s s2"
      using step send_byte_conditions [of s c p dev "data i"]
        recv_byte_conditions [of s c p dev "data i"]
      by (auto split: if_splits prod.splits)
    show ?thesis
    proof (cases "ret = I2C_OK c")
      case False
      with st show ?thesis
        by (simp add: transfer_loop_unfold [OF True step])
    next
      case ok: True
      then have "\<not> ret \<noteq> I2C_OK c" by simp
      from "1.IH" [OF True step [symmetric] refl this]
      have "same_conditions s2 (snd (snd (transfer_loop c p dev action (Suc i) n data2 s2)))" .
      with st ok show ?thesis
        by (auto simp add: transfer_loop_unfold [OF True step] intro: same_conditions_trans)
    qed
  qed
qed

lemma transfer_loop_count:
  "transfer_loop c p dev action i n data s = (Inr j, data1, s1) \<Longrightarrow> i \<le> n \<Longrightarrow> j = n"
proof (induction c p dev action i n data s rule: transfer_loop.induct)
  case (1 c p dev action i n data s)
  show ?case
  proof (cases "i < n")
    case False
    with "1.prems" show ?thesis by (subst (asm) transfer_loop.simps) simp
  next
    case True
    let ?step = "if action AND I2C_WRITE c \<noteq> 0
               then (case i2c_master_send_byte c p dev (data i) s of
                       (ret, s1) \<Rightarrow> (ret, data, s1))
               else (case i2c_master_recv_byte c p dev (data i) s of
                       (ret, d, s1) \<Rightarrow> (ret, data(i := d), s1))"
    obtain ret data2 s2 where step: "?step = (ret, data2, s2)"
      by (cases ?step)
    from "1.prems"(1) have ok: "\<not> ret \<noteq> I2C_OK c"
      and rest: "transfer_loop c p dev action (Suc i) n data2 s2 = (Inr j, data1, s1)"
      by (simp_all add: transfer_loop_unfold [OF True step] split: if_splits)
    from True have "Suc i \<le> n" by simp
    from "1.IH" [OF True step [symmetric] refl ok rest this]
    show ?thesis .
  qed
qed

lemma send_start_calls:
  "calls (snd (i2c_master_send_start c p dev s)) = Send_start # calls s"
  by (simp add: i2c_master_send_start_def case_prod_unfold line_defs)

lemma send_stop_calls:
  "calls (snd (i2c_master_send_stop c p dev s)) = Send_stop # calls s"
  by (simp add: i2c_master_send_stop_def Let_def case_prod_unfold line_defs)

lemma transfer_start_conditions:
  assumes "transfer_start c p dev action s = Inr s1"
  shows "start_conditions s1 = start_conditions s + of_bool (action AND I2C_START c \<noteq> 0) \<and>
         stop_conditions s1 = stop_conditions s"
proof (cases "action AND I2C_START c \<noteq> 0")
  case False
  with assms show ?thesis by (simp add: transfer_start_def)
next
  case True
  obtain r1 t1 where st: "i2c_master_send_start c p dev s = (r1, t1)"
    by (cases "i2c_master_send_start c p dev s")
  obtain r2 t2 where ad:
    "i2c_master_send_addr c p dev (action AND I2C_READ c \<noteq> 0) t1 = (r2, t2)"
    by (cases "i2c_master_send_addr c p dev (action AND I2C_READ c \<noteq> 0) t1")
  from assms True st ad have "s1 = t2"
    by (simp add: transfer_start_def split: if_splits)
  moreover have "calls t1 = Send_start # calls s"
    using send_start_calls [of c p dev s] st by simp
  moreover have "same_conditions t1 t2"
    using send_byte_conditions [of t1 c p dev] ad
    by (metis i2c_master_send_addr_def snd_conv)
  ultimately show ?thesis
    using True by (simp add: same_conditions_def start_conditions_def stop_conditions_def)
qed

lemma transfer_stop_conditions:
  assumes "transfer_stop c p dev action s = Inr s1"
  shows "start_conditions s1 = start_conditions s \<and>
         stop_conditions s1 = stop_conditions s + of_bool (action AND I2C_STOP c \<noteq> 0)"
proof (cases "action AND I2C_STOP c \<noteq> 0")
  case False
  with assms show ?thesis by (simp add: transfer_stop_def)
next
  case True
  from assms True have "s1 = snd (i2c_master_send_stop c p dev s)"
    by (simp add: transfer_stop_def case_prod_unfold split: if_splits)
  with True send_stop_calls [of c p dev s] show ?thesis
    by (simp add: start_conditions_def stop_conditions_def)
qed

lemma transfer_body_Inr:
  assumes "transfer_body c p dev buffer sz action s = (Inr n, buffer1, s1)"
  shows "n = unat sz \<and>
     start_conditions s1 = start_conditions s + of_bool (action AND I2C_START c \<noteq> 0) \<and>
     stop_conditions s1 = stop_conditions s + of_bool (action AND I2C_STOP c \<noteq> 0)"
proof -
  obtain t1 where a: "transfer_start c p dev action s = Inr t1"
    using assms by (auto simp add: transfer_body_def split: sum.splits prod.splits)
  obtain r data2 t2 where b: "transfer_loop c p dev action 0 (unat sz) buffer t1 = (r, data2, t2)"
    by (cases "transfer_loop c p dev action 0 (unat sz) buffer t1")
  from assms a b have r: "r = Inr n" and c: "transfer_stop c p dev action t2 = Inr s1"
    by (auto simp add: transfer_body_def split: sum.splits prod.splits)
  have "n = unat sz"
    using transfer_loop_count [of c p dev action 0 "unat sz" buffer t1 n data2 t2] b r by simp
  moreover have "same_conditions t1 t2"
    using transfer_loop_conditions [of t1 c p dev action 0 "unat sz" buffer] b by simp
  ultimately show ?thesis
    using transfer_start_conditions [OF a] transfer_stop_conditions [OF c]
    by (simp add: same_conditions_def)
qed

lemma flag_in_union:
  "(a OR b OR c) AND a = (a :: int)" "(a OR b OR c) AND c = c"
  by (auto simp add: bit_eq_iff bit_and_iff bit_or_iff)

text \<open>
  C3. A transfer with the action \<^verbatim>\<open>I2C_START | I2C_WRITE | I2C_STOP\<close> on an idle bus,
  to a slave that acknowledges, with no conflict and no clock stretching, does not return
  its size: it returns 0 where \<^verbatim>\<open>I2C_OK\<close> is 1 (the acknowledge bit of the address
  byte) and 1 for every other value of \<^verbatim>\<open>I2C_OK\<close> (the result of the first bit
  transfer), after one start condition, the address byte or its first bit, and no stop
  condition. The buffer is not sent.
\<close>

theorem i2c_master_transfer_acknowledged:
  "0 < I2C_CLOCK_STRETCH_TIMEOUT c \<and> scl (bus dev) \<noteq> sda (bus dev) \<and> I2C_START c \<noteq> 0 \<and>
   pio_level (ack_peer dev) s (sda (bus dev)) \<longrightarrow>
     fst (i2c_master_transfer c (ack_peer dev) dev buffer sz
            (I2C_START c OR I2C_WRITE c OR I2C_STOP c) s) = (if I2C_OK c = 1 then 0 else 1) \<and>
     fst (snd (i2c_master_transfer c (ack_peer dev) dev buffer sz
            (I2C_START c OR I2C_WRITE c OR I2C_STOP c) s)) = buffer \<and>
     start_conditions (snd (snd (i2c_master_transfer c (ack_peer dev) dev buffer sz
            (I2C_START c OR I2C_WRITE c OR I2C_STOP c) s))) = start_conditions s + 1 \<and>
     stop_conditions (snd (snd (i2c_master_transfer c (ack_peer dev) dev buffer sz
            (I2C_START c OR I2C_WRITE c OR I2C_STOP c) s))) = stop_conditions s \<and>
     history (snd (snd (i2c_master_transfer c (ack_peer dev) dev buffer sz
            (I2C_START c OR I2C_WRITE c OR I2C_STOP c) s))) =
       history s @ Send_start #
         (if I2C_OK c = 1
          then map Send_bit (msb_first (word_of_int (push_bit 1 (int (slave_id (slave dev))) OR
                 of_bool ((I2C_START c OR I2C_WRITE c OR I2C_STOP c) AND I2C_READ c \<noteq> 0)))) @
               [Recv_bit]
          else [Send_bit (bit (word_of_int (push_bit 1 (int (slave_id (slave dev))) OR
                 of_bool ((I2C_START c OR I2C_WRITE c OR I2C_STOP c) AND I2C_READ c \<noteq> 0))
                   :: 8 word) 7)])"
proof
  let ?action = "I2C_START c OR I2C_WRITE c OR I2C_STOP c"
  let ?rd = "?action AND I2C_READ c \<noteq> 0"
  let ?B = "word_of_int (push_bit 1 (int (slave_id (slave dev))) OR of_bool ?rd) :: 8 word"
  assume h: "0 < I2C_CLOCK_STRETCH_TIMEOUT c \<and> scl (bus dev) \<noteq> sda (bus dev) \<and>
      I2C_START c \<noteq> 0 \<and> pio_level (ack_peer dev) s (sda (bus dev))"
  then have t: "0 < I2C_CLOCK_STRETCH_TIMEOUT c" and pins: "scl (bus dev) \<noteq> sda (bus dev)"
    and flag: "?action AND I2C_START c \<noteq> 0"
    and high: "pio_level (ack_peer dev) s (sda (bus dev))"
    by (simp_all add: flag_in_union)
  obtain t1 where st: "i2c_master_send_start c (ack_peer dev) dev s = (I2C_OK c, t1)"
    and c1: "calls t1 = Send_start # calls s"
    using high
    by (simp add: i2c_master_send_start_def line_defs pio_get_def pio_level_def
        note_call_def)
  obtain r t2 where sb: "i2c_master_send_byte c (ack_peer dev) dev ?B t1 = (r, t2)"
    by (cases "i2c_master_send_byte c (ack_peer dev) dev ?B t1")
  note res = send_byte_ack_peer [OF t pins sb]
  from res have r: "r = (if I2C_OK c = 1 then 0 else 1)" and bad: "r \<noteq> I2C_OK c"
    by (auto split: if_splits)
  from c1 have h1: "history t1 = history s @ [Send_start]"
    by (simp add: history_def)
  from res have len: "history t2 = history s @ Send_start #
      (if I2C_OK c = 1 then map Send_bit (msb_first ?B) @ [Recv_bit]
       else [Send_bit (bit ?B 7)])"
    unfolding h1 by (auto split: if_splits)
  have cond: "same_conditions t1 t2"
    using send_byte_conditions [of t1 c "ack_peer dev" dev ?B] sb by simp
  have "transfer_start c (ack_peer dev) dev ?action s = Inl (r, t2)"
    using flag st sb bad by (simp add: transfer_start_def i2c_master_send_addr_def)
  then have "i2c_master_transfer c (ack_peer dev) dev buffer sz ?action s = (r, buffer, t2)"
    by (simp add: i2c_master_transfer_def transfer_body_def)
  with r len cond c1
  show "fst (i2c_master_transfer c (ack_peer dev) dev buffer sz ?action s) =
       (if I2C_OK c = 1 then 0 else 1) \<and>
     fst (snd (i2c_master_transfer c (ack_peer dev) dev buffer sz ?action s)) = buffer \<and>
     start_conditions (snd (snd (i2c_master_transfer c (ack_peer dev) dev buffer sz
            ?action s))) = start_conditions s + 1 \<and>
     stop_conditions (snd (snd (i2c_master_transfer c (ack_peer dev) dev buffer sz
            ?action s))) = stop_conditions s \<and>
     history (snd (snd (i2c_master_transfer c (ack_peer dev) dev buffer sz ?action s))) =
       history s @ Send_start #
         (if I2C_OK c = 1 then map Send_bit (msb_first ?B) @ [Recv_bit]
          else [Send_bit (bit ?B 7)])"
    by (simp add: same_conditions_def start_conditions_def stop_conditions_def)
qed

theorem i2c_master_transfer_acknowledged_witness:
  "fst (i2c_master_transfer example_consts (ack_peer example_dev) example_dev example_buffer 3
         (I2C_START example_consts OR I2C_WRITE example_consts OR I2C_STOP example_consts)
         power_up) = 0 \<and>
   stop_conditions (snd (snd (i2c_master_transfer example_consts (ack_peer example_dev)
         example_dev example_buffer 3
         (I2C_START example_consts OR I2C_WRITE example_consts OR I2C_STOP example_consts)
         power_up))) = 0 \<and>
   fst (i2c_master_transfer example_consts_ok0 (ack_peer example_dev) example_dev
         example_buffer 3
         (I2C_START example_consts_ok0 OR I2C_WRITE example_consts_ok0 OR
          I2C_STOP example_consts_ok0)
         power_up) = 1 \<and>
   stop_conditions (snd (snd (i2c_master_transfer example_consts_ok0 (ack_peer example_dev)
         example_dev example_buffer 3
         (I2C_START example_consts_ok0 OR I2C_WRITE example_consts_ok0 OR
          I2C_STOP example_consts_ok0)
         power_up))) = 0"
proof -
  have c0: "0 < I2C_CLOCK_STRETCH_TIMEOUT example_consts_ok0 \<and>
      scl (bus example_dev) \<noteq> sda (bus example_dev) \<and> I2C_START example_consts_ok0 \<noteq> 0 \<and>
      pio_level (ack_peer example_dev) power_up (sda (bus example_dev))"
    "I2C_OK example_consts_ok0 \<noteq> 1"
    by (simp_all add: example_consts_ok0_def example_consts_def example_dev_def
        pio_level_def ack_peer_def power_up_def)
  have c1: "0 < I2C_CLOCK_STRETCH_TIMEOUT example_consts \<and>
      scl (bus example_dev) \<noteq> sda (bus example_dev) \<and> I2C_START example_consts \<noteq> 0 \<and>
      pio_level (ack_peer example_dev) power_up (sda (bus example_dev))"
    "I2C_OK example_consts = 1"
    by (simp_all add: example_consts_def example_dev_def pio_level_def ack_peer_def
        power_up_def)
  have z: "stop_conditions power_up = 0"
    by (simp add: stop_conditions_def power_up_def)
  from i2c_master_transfer_acknowledged
      [of example_consts example_dev power_up example_buffer 3]
    i2c_master_transfer_acknowledged
      [of example_consts_ok0 example_dev power_up example_buffer 3]
    c0 c1 z
  show ?thesis
    by simp
qed

subsection \<open>A clock line held low\<close>







subsection \<open>The device table\<close>

lemma init_full:
  "I2C_DEVICES_NUM c \<le> unat (i2c_devices_num s) \<Longrightarrow> i2c_master_init c b sl s = (None, s)"
  by (simp add: i2c_master_init_def)

lemma init_free:
  assumes "unat (i2c_devices_num s) < I2C_DEVICES_NUM c" and "I2C_DEVICES_NUM c < 256"
  shows "fst (i2c_master_init c b sl s) = Some (unat (i2c_devices_num s))"
    and "unat (i2c_devices_num (snd (i2c_master_init c b sl s))) = Suc (unat (i2c_devices_num s))"
    and "i2c_devices (snd (i2c_master_init c b sl s)) =
           (i2c_devices s)(unat (i2c_devices_num s) \<mapsto> \<lparr>bus = b, slave = sl\<rparr>)"
proof -
  from assms have "unat (i2c_devices_num s) + 1 < 256" by simp
  then have "unat (i2c_devices_num s + 1) = Suc (unat (i2c_devices_num s))"
    by (simp add: unat_word_ariths)
  with assms(1)
  show "fst (i2c_master_init c b sl s) = Some (unat (i2c_devices_num s))"
    and "unat (i2c_devices_num (snd (i2c_master_init c b sl s))) = Suc (unat (i2c_devices_num s))"
    and "i2c_devices (snd (i2c_master_init c b sl s)) =
           (i2c_devices s)(unat (i2c_devices_num s) \<mapsto> \<lparr>bus = b, slave = sl\<rparr>)"
    by (simp_all add: i2c_master_init_def Let_def line_defs)
qed

lemma init_all_fill:
  assumes "I2C_DEVICES_NUM c < 256"
  shows "unat (i2c_devices_num s) + length cfgs \<le> I2C_DEVICES_NUM c \<Longrightarrow>
     fst (init_all c cfgs s) =
       map Some [unat (i2c_devices_num s) ..< unat (i2c_devices_num s) + length cfgs] \<and>
     unat (i2c_devices_num (snd (init_all c cfgs s))) = unat (i2c_devices_num s) + length cfgs \<and>
     (\<forall>k. i2c_devices (snd (init_all c cfgs s)) k =
        (if unat (i2c_devices_num s) \<le> k \<and> k < unat (i2c_devices_num s) + length cfgs
         then Some \<lparr>bus = fst (cfgs ! (k - unat (i2c_devices_num s))),
                    slave = snd (cfgs ! (k - unat (i2c_devices_num s)))\<rparr>
         else i2c_devices s k))"
proof (induction cfgs arbitrary: s)
  case Nil
  show ?case by auto
next
  case (Cons cfg cfgs)
  let ?n = "unat (i2c_devices_num s)"
  let ?s1 = "snd (i2c_master_init c (fst cfg) (snd cfg) s)"
  from Cons.prems have free: "?n < I2C_DEVICES_NUM c" by simp
  note one = init_free [OF free assms, of "fst cfg" "snd cfg"]
  from Cons.prems one(2) have "unat (i2c_devices_num ?s1) + length cfgs \<le> I2C_DEVICES_NUM c"
    by simp
  note rest = Cons.IH [OF this]
  have hs: "fst (init_all c (cfg # cfgs) s) = Some ?n # fst (init_all c cfgs ?s1)"
    using one(1) by (simp add: case_prod_unfold)
  have st: "snd (init_all c (cfg # cfgs) s) = snd (init_all c cfgs ?s1)"
    by (simp add: case_prod_unfold)
  have up: "[?n ..< ?n + length (cfg # cfgs)] = ?n # [Suc ?n ..< Suc ?n + length cfgs]"
    using upt_conv_Cons [of ?n "Suc (?n + length cfgs)"] by (simp del: upt_Suc)
  have "fst (init_all c (cfg # cfgs) s) = map Some [?n ..< ?n + length (cfg # cfgs)]"
    unfolding up hs using rest one(2) by simp
  moreover have "unat (i2c_devices_num (snd (init_all c (cfg # cfgs) s))) =
      ?n + length (cfg # cfgs)"
    using st rest one(2) by simp
  moreover have "\<forall>k. i2c_devices (snd (init_all c (cfg # cfgs) s)) k =
        (if ?n \<le> k \<and> k < ?n + length (cfg # cfgs)
         then Some \<lparr>bus = fst ((cfg # cfgs) ! (k - ?n)), slave = snd ((cfg # cfgs) ! (k - ?n))\<rparr>
         else i2c_devices s k)"
  proof
    fix k
    show "i2c_devices (snd (init_all c (cfg # cfgs) s)) k =
        (if ?n \<le> k \<and> k < ?n + length (cfg # cfgs)
         then Some \<lparr>bus = fst ((cfg # cfgs) ! (k - ?n)), slave = snd ((cfg # cfgs) ! (k - ?n))\<rparr>
         else i2c_devices s k)"
    proof (cases "k = ?n")
      case True
      with st rest one(2,3) show ?thesis by simp
    next
      case False
      with st rest one(2,3) show ?thesis
        by (auto simp add: nth_Cons' Suc_diff_le)
    qed
  qed
  ultimately show ?case by blast
qed

lemma init_all_append:
  "init_all c (xs @ ys) s =
     (fst (init_all c xs s) @ fst (init_all c ys (snd (init_all c xs s))),
      snd (init_all c ys (snd (init_all c xs s))))"
  by (induction xs arbitrary: s) (simp_all add: case_prod_unfold)

text \<open>
  C8. With a table capacity \<open>N\<close> that the \<^verbatim>\<open>uint8_t\<close> fill count can reach, and the
  table empty, the first \<open>N\<close> calls of \<^verbatim>\<open>i2c_master_init\<close> return the slots 0 to
  \<open>N - 1\<close> in turn (distinct, none of them null), the call after them returns the null
  handle, and after all these calls each of the \<open>N\<close> slots still holds the bus and slave
  configuration it was given. \<^verbatim>\<open>i2c_master_init\<close> returns the null handle exactly when
  the table is full.
\<close>

theorem i2c_master_init_capacity:
  "(I2C_DEVICES_NUM c < 256 \<and> i2c_devices_num s = 0 \<and> length cfgs = I2C_DEVICES_NUM c \<longrightarrow>
      fst (init_all c (cfgs @ [extra]) s) = map Some [0..<I2C_DEVICES_NUM c] @ [None] \<and>
      distinct (fst (init_all c (cfgs @ [extra]) s)) \<and>
      (\<forall>k<I2C_DEVICES_NUM c.
         i2c_devices (snd (init_all c (cfgs @ [extra]) s)) k =
           Some \<lparr>bus = fst (cfgs ! k), slave = snd (cfgs ! k)\<rparr>)) \<and>
   (fst (i2c_master_init c b sl t) = None) = (I2C_DEVICES_NUM c \<le> unat (i2c_devices_num t))"
proof (intro conjI impI)
  assume h: "I2C_DEVICES_NUM c < 256 \<and> i2c_devices_num s = 0 \<and> length cfgs = I2C_DEVICES_NUM c"
  then have "unat (i2c_devices_num s) + length cfgs \<le> I2C_DEVICES_NUM c" by simp
  from init_all_fill [OF _ this] h
  have hs: "fst (init_all c cfgs s) = map Some [0..<I2C_DEVICES_NUM c]"
    and n: "unat (i2c_devices_num (snd (init_all c cfgs s))) = I2C_DEVICES_NUM c"
    and d: "\<forall>k. i2c_devices (snd (init_all c cfgs s)) k =
        (if k < I2C_DEVICES_NUM c then Some \<lparr>bus = fst (cfgs ! k), slave = snd (cfgs ! k)\<rparr>
         else i2c_devices s k)"
    by simp_all
  from n have last: "i2c_master_init c (fst extra) (snd extra) (snd (init_all c cfgs s)) =
      (None, snd (init_all c cfgs s))"
    by (simp add: init_full)
  from hs last
  show all: "fst (init_all c (cfgs @ [extra]) s) = map Some [0..<I2C_DEVICES_NUM c] @ [None]"
    by (simp add: init_all_append)
  show "distinct (fst (init_all c (cfgs @ [extra]) s))"
    unfolding all by (auto simp add: distinct_map)
  from d last
  show "\<forall>k<I2C_DEVICES_NUM c.
         i2c_devices (snd (init_all c (cfgs @ [extra]) s)) k =
           Some \<lparr>bus = fst (cfgs ! k), slave = snd (cfgs ! k)\<rparr>"
    by (simp add: init_all_append)
next
  show "(fst (i2c_master_init c b sl t) = None) = (I2C_DEVICES_NUM c \<le> unat (i2c_devices_num t))"
    by (simp add: i2c_master_init_def Let_def)
qed

theorem i2c_master_init_capacity_witness:
  "fst (init_all example_consts (example_cfgs @ [(\<lparr>scl = 6, sda = 7\<rparr>,
          \<lparr>slave_id = 0x20, addr_bytes = 1\<rparr>)]) power_up) =
     [Some 0, Some 1, Some 2, Some 3, None] \<and>
   i2c_devices (snd (init_all example_consts (example_cfgs @ [(\<lparr>scl = 6, sda = 7\<rparr>,
          \<lparr>slave_id = 0x20, addr_bytes = 1\<rparr>)]) power_up)) 2 =
     Some \<lparr>bus = \<lparr>scl = 2, sda = 3\<rparr>, slave = \<lparr>slave_id = 0x68, addr_bytes = 1\<rparr>\<rparr>"
proof -
  have h: "I2C_DEVICES_NUM example_consts < 256 \<and> i2c_devices_num power_up = 0 \<and>
      length example_cfgs = I2C_DEVICES_NUM example_consts"
    by (simp add: example_consts_def power_up_def example_cfgs_def)
  have n: "I2C_DEVICES_NUM example_consts = 4" "(2 :: nat) < 4"
    by (simp_all add: example_consts_def)
  have u: "[0..<4] = [0, 1, 2, 3 :: nat]"
    by (simp add: upt_rec)
  from i2c_master_init_capacity
    [of example_consts power_up example_cfgs "(\<lparr>scl = 6, sda = 7\<rparr>,
          \<lparr>slave_id = 0x20, addr_bytes = 1\<rparr>)"] h
  have "fst (init_all example_consts (example_cfgs @ [(\<lparr>scl = 6, sda = 7\<rparr>,
          \<lparr>slave_id = 0x20, addr_bytes = 1\<rparr>)]) power_up) = map Some [0..<4] @ [None]"
    and "\<forall>k<4. i2c_devices (snd (init_all example_consts (example_cfgs @ [(\<lparr>scl = 6, sda = 7\<rparr>,
          \<lparr>slave_id = 0x20, addr_bytes = 1\<rparr>)]) power_up)) k =
           Some \<lparr>bus = fst (example_cfgs ! k), slave = snd (example_cfgs ! k)\<rparr>"
    unfolding n by blast+
  then show ?thesis
    using n(2) by (simp add: u example_cfgs_def)
qed

end
